theory Spec2Isabelle
  imports Complex_Main "HOL-Library.Word" "HOL-Library.Monad_Syntax"
begin

section \<open>Numbers of the program\<close>

text \<open>
  The program computes with C \<^verbatim>\<open>double\<close> and \<^verbatim>\<open>double complex\<close>. A \<^verbatim>\<open>double\<close> is
  a finite number, one of the two infinities, or a NaN. In the evaluator the operations
  of \<^verbatim>\<open><complex.h>\<close> are a parameter and only the comparison with the threshold is
  fixed, on the type \<open>double\<close> below.

  The viewport arithmetic of \<^verbatim>\<open>graphics.c\<close> is modelled twice. The functions on
  \<open>real\<close> compute without rounding; they serve where rounding plays no part (which
  fields an event changes, which bounds reach the builder) and at inputs on which the
  arithmetic of doubles is exact. The functions whose names end in \<open>_double\<close> round
  every operation to binary64, and serve where a property depends on the rounding.
\<close>

datatype double = Finite real | PosInf | NegInf | NaN

text \<open>
  The C comparison \<^verbatim>\<open>a > b\<close> on doubles: false as soon as one side is a NaN,
  and nothing is greater than positive infinity.
\<close>

fun double_gt :: "double \<Rightarrow> double \<Rightarrow> bool" where
  "double_gt NaN b = False"
| "double_gt a NaN = False"
| "double_gt a PosInf = False"
| "double_gt NegInf b = False"
| "double_gt PosInf b = True"
| "double_gt (Finite a) NegInf = True"
| "double_gt (Finite a) (Finite b) = (b < a)"

text \<open>
  The operations of \<^verbatim>\<open><complex.h>\<close> that \<^verbatim>\<open>mandelbrot_in_set\<close> calls are
  a parameter of the model, over any representation \<open>'z\<close> of \<^verbatim>\<open>double complex\<close>:
  \<open>cplx re im\<close> is \<^verbatim>\<open>re + im * I\<close>, \<open>cpow\<close> and \<open>cabs\<close> are the library
  functions and \<open>cadd\<close> is the addition of two complex values.
\<close>

record 'z complex_h =
  cplx :: "real \<Rightarrow> real \<Rightarrow> 'z"
  cpow :: "'z \<Rightarrow> 'z \<Rightarrow> 'z"
  cadd :: "'z \<Rightarrow> 'z \<Rightarrow> 'z"
  cabs :: "'z \<Rightarrow> double"

text \<open>
  Exact arithmetic on \<open>complex\<close> as one instance. The program raises to the power 2
  only, so \<open>cpow\<close> squares here whatever its second argument.
\<close>

definition exact_complex :: "complex complex_h" where
  "exact_complex =
     \<lparr> cplx = Complex, cpow = (\<lambda>z w. z * z), cadd = (\<lambda>z w. z + w),
       cabs = (\<lambda>z. Finite (cmod z)) \<rparr>"

section \<open>Binary64 arithmetic\<close>

text \<open>
  Rounding to the nearest integer, a tie going to the even one.
\<close>

definition round_even :: "real \<Rightarrow> int" where
  "round_even y =
     (let f = \<lfloor>y\<rfloor> in
      if y - of_int f < 1 / 2 then f
      else if 1 / 2 < y - of_int f then f + 1
      else if even f then f else f + 1)"

text \<open>
  The exponent of the binade of \<open>x\<close>, which is \<open>-1022\<close> throughout the subnormal
  range; the doubles of that binade are the multiples of \<open>2\<close> to the power
  \<open>binade x - 52\<close>.
\<close>

definition binade :: "real \<Rightarrow> int" where
  "binade x = max \<lfloor>log 2 \<bar>x\<bar>\<rfloor> (- 1022)"

text \<open>
  The multiple of the spacing of its binade that is nearest to \<open>x\<close>, ties to even:
  the double that an operation with exact result \<open>x\<close> returns, unless it overflows.
\<close>

definition nearest :: "real \<Rightarrow> real" where
  "nearest x =
     (if x = 0 then 0
      else of_int (round_even (x / 2 powr of_int (binade x - 52))) * 2 powr of_int (binade x - 52))"

text \<open>
  The result of an operation of C on doubles whose exact result is \<open>x\<close>: the nearest
  double, or \<open>None\<close> when that is beyond the largest finite double and the operation
  returns an infinity. Every operation is taken to round to binary64 on its own (no
  wider intermediate format, no fused multiply and add). A division by zero returns an
  infinity or a NaN.
\<close>

definition fl :: "real \<Rightarrow> real option" where
  "fl x = (if \<bar>nearest x\<bar> < 2 ^ 1024 then Some (nearest x) else None)"

definition fl_div :: "real \<Rightarrow> real \<Rightarrow> real option" where
  "fl_div a b = (if b = 0 then None else fl (a / b))"

section \<open>The escape-time evaluator (mandelbrot.c)\<close>

text \<open>
  \<^verbatim>\<open>header.h\<close> is not among the sources, so its macros \<^verbatim>\<open>MAX_ITERATION\<close> and
  \<^verbatim>\<open>_INFINITY\<close> are arguments \<open>maxit\<close> and \<open>thr\<close> of the model.

  The loop of \<^verbatim>\<open>mandelbrot_in_set\<close>, started at \<open>i\<close> with the current \<open>z\<close>. The
  last argument counts the executions of the loop body so far, and the loop returns the
  C return value together with that count.
\<close>

function in_set_loop ::
  "'z complex_h \<Rightarrow> double \<Rightarrow> int \<Rightarrow> 'z \<Rightarrow> int \<Rightarrow> 'z \<Rightarrow> nat \<Rightarrow> int \<times> nat" where
  "in_set_loop h thr maxit c i z n =
     (if i < maxit then
        (let z' = cadd h (cpow h z (cplx h 2 0)) c in
         if double_gt (cabs h z') thr then (i, Suc n)
         else in_set_loop h thr maxit c (i + 1) z' (Suc n))
      else (- 1, n))"
  by pat_completeness auto
termination
  by (relation "measure (\<lambda>(h, thr, maxit, c, i, z, n). nat (maxit - i))") auto

declare in_set_loop.simps [simp del]

definition mandelbrot_in_set :: "'z complex_h \<Rightarrow> double \<Rightarrow> int \<Rightarrow> 'z \<Rightarrow> int" where
  "mandelbrot_in_set h thr maxit c = fst (in_set_loop h thr maxit c 0 (cplx h 0 0) 0)"

definition mandelbrot_iterations :: "'z complex_h \<Rightarrow> double \<Rightarrow> int \<Rightarrow> 'z \<Rightarrow> nat" where
  "mandelbrot_iterations h thr maxit c = snd (in_set_loop h thr maxit c 0 (cplx h 0 0) 0)"

text \<open>
  Modelled from the spec: the macro \<^verbatim>\<open>_INFINITY\<close> of \<^verbatim>\<open>header.h\<close>, which is not
  among the sources. The spec calls it an unbounded, "infinite" threshold.
\<close>

definition C_INFINITY :: double where
  "C_INFINITY = PosInf"

text \<open>
  The spec's view of the result: \<^verbatim>\<open>-1\<close> is \<open>Bounded\<close>, a return value \<open>i\<close> of the
  loop is \<open>Escaped i\<close>.
\<close>

datatype EscapeResult = Escaped nat | Bounded

definition escape_result :: "int \<Rightarrow> EscapeResult" where
  "escape_result r = (if r = - 1 then Bounded else Escaped (nat r))"

section \<open>Colours and the palette (graphics.c)\<close>

text \<open>
  The type \<^verbatim>\<open>Color\<close> is declared in \<^verbatim>\<open>header.h\<close>; the sources use it as a union
  of a packed \<^verbatim>\<open>hexcode\<close> and a struct \<^verbatim>\<open>rgb\<close> of the channels \<^verbatim>\<open>r\<close>, \<^verbatim>\<open>g\<close>
  and \<^verbatim>\<open>b\<close>, one byte each. The model keeps the three channels. Writing a hexcode
  sets all of them; \<^verbatim>\<open>RED_MASK\<close>, \<^verbatim>\<open>GREEN_MASK\<close> and \<^verbatim>\<open>BLUE_MASK\<close> of
  \<^verbatim>\<open>graphics.c\<close> put \<^verbatim>\<open>r\<close> in the low byte, \<^verbatim>\<open>g\<close> above it and \<^verbatim>\<open>b\<close> above
  that.
\<close>

record Color =
  rgb_r :: "8 word"
  rgb_g :: "8 word"
  rgb_b :: "8 word"

definition Color_of_hexcode :: "32 word \<Rightarrow> Color" where
  "Color_of_hexcode x =
     \<lparr> rgb_r = ucast x, rgb_g = ucast (drop_bit 8 x), rgb_b = ucast (drop_bit 16 x) \<rparr>"

definition IN_SET_COLOR :: "32 word" where "IN_SET_COLOR = 0x050505"
definition PALETTE_START :: "32 word" where "PALETTE_START = 0x000022"
definition PALETTE_END :: "32 word" where "PALETTE_END = 0xd62f2f"

text \<open>The quotient of two C \<^verbatim>\<open>int\<close>s drops the fractional part.\<close>

definition c_div :: "int \<Rightarrow> int \<Rightarrow> int" where
  "c_div a b = (if (a < 0) = (b < 0) then \<bar>a\<bar> div \<bar>b\<bar> else - (\<bar>a\<bar> div \<bar>b\<bar>))"

text \<open>
  \<^verbatim>\<open>malloc\<close> of an array of \<open>n\<close> colours: \<open>None\<close> is the null pointer, and a
  successful call returns a block whose slots hold whatever \<open>junk\<close> says.
\<close>

definition malloc_Color :: "(nat \<Rightarrow> Color) option \<Rightarrow> nat \<Rightarrow> Color list option" where
  "malloc_Color heap n = (case heap of None \<Rightarrow> None | Some junk \<Rightarrow> Some (map junk [0..<n]))"

text \<open>
  The loop of \<^verbatim>\<open>create_palette\<close>. The right-hand sides are computed on \<^verbatim>\<open>int\<close>
  and stored in a byte.
\<close>

function palette_loop ::
  "int \<Rightarrow> int \<Rightarrow> int \<Rightarrow> int \<Rightarrow> Color \<Rightarrow> int \<Rightarrow> Color list \<Rightarrow> Color list" where
  "palette_loop maxit red_step green_step blue_step start i palette =
     (if i < maxit then
        palette_loop maxit red_step green_step blue_step start (i + 1)
          (palette[nat i := (palette ! nat i)
             \<lparr> rgb_r := word_of_int (i * red_step + uint (rgb_r start)),
               rgb_g := word_of_int (i * green_step + uint (rgb_g start)),
               rgb_b := word_of_int (i * blue_step + uint (rgb_b start)) \<rparr>])
      else palette)"
  by pat_completeness auto
termination
  by (relation "measure (\<lambda>(maxit, rs, gs, bs, start, i, palette). nat (maxit - i))") auto

declare palette_loop.simps [simp del]

definition create_palette ::
  "(nat \<Rightarrow> Color) option \<Rightarrow> int \<Rightarrow> Color \<Rightarrow> Color \<Rightarrow> Color list option" where
  "create_palette heap maxit start endc =
     (let red_step = c_div \<bar>uint (rgb_r endc) - uint (rgb_r start)\<bar> maxit;
          green_step = c_div \<bar>uint (rgb_g endc) - uint (rgb_g start)\<bar> maxit;
          blue_step = c_div \<bar>uint (rgb_b endc) - uint (rgb_b start)\<bar> maxit
      in case malloc_Color heap (nat (maxit + 1)) of
           None \<Rightarrow> None
         | Some palette \<Rightarrow>
             Some ((palette_loop maxit red_step green_step blue_step start 0 palette)
                     [nat maxit := Color_of_hexcode 0x0]))"

text \<open>
  The value the gradient formula gives channel \<open>s\<close> (of the start colour) at index
  \<open>i\<close>, towards \<open>e\<close> (of the end colour), as an unbounded integer.
\<close>

definition gradient_channel :: "int \<Rightarrow> 8 word \<Rightarrow> 8 word \<Rightarrow> int \<Rightarrow> int" where
  "gradient_channel maxit s e i = uint s + i * (\<bar>uint e - uint s\<bar> div maxit)"

section \<open>The pixel buffer builder\<close>

text \<open>
  Modelled from the spec: \<^verbatim>\<open>map_range\<close>, which \<^verbatim>\<open>recenter_x\<close> and \<^verbatim>\<open>recenter_y\<close>
  call and which is defined outside the sources at hand. Section 4.3 of the spec gives
  the linear interpolation: an input \<open>v\<close> of the domain \<open>[in_lo, in_hi]\<close> goes to
  the output interval \<open>[out_lo, out_hi]\<close>. The formula of the spec is written with
  the offset \<open>in_lo\<close>; the offset is the lower end of the output interval, since the
  spec sends pixel \<open>(0, 0)\<close> to \<open>(realLo, imagLo)\<close>. Where the domain is empty
  (\<open>in_hi = in_lo\<close>) the C division gives an infinity or a NaN, which \<open>real\<close> does
  not have; the theorems below that use \<open>map_range\<close> take a window of positive width.
\<close>

definition map_range :: "real \<Rightarrow> real \<Rightarrow> real \<Rightarrow> real \<Rightarrow> real \<Rightarrow> real" where
  "map_range v in_lo in_hi out_lo out_hi =
     out_lo + (v - in_lo) * (out_hi - out_lo) / (in_hi - in_lo)"

text \<open>
  Modelled from the spec: the pixel-to-plane mapping of the pixel buffer builder
  (section 4.3): \<open>x\<close> is mapped over \<open>[0, width)\<close> to \<open>[realLo, realHi]\<close> and \<open>y\<close>
  over \<open>[0, height)\<close> to \<open>[imagLo, imagHi]\<close>.
\<close>

definition pixel_point ::
  "real \<Rightarrow> real \<Rightarrow> real \<Rightarrow> real \<Rightarrow> int \<Rightarrow> int \<Rightarrow> int \<Rightarrow> int \<Rightarrow> real \<times> real" where
  "pixel_point realLo realHi imagLo imagHi width height x y =
     (map_range (of_int x) 0 (of_int width) realLo realHi,
      map_range (of_int y) 0 (of_int height) imagLo imagHi)"

text \<open>
  Modelled from the spec: the colour the pixel buffer builder writes for a plane point
  (section 4.3): \<open>palette[n]\<close> if the evaluator returns \<open>Escaped n\<close> there, the
  in-set colour if it returns \<open>Bounded\<close>.
\<close>

definition pixel_color ::
  "(real \<times> real \<Rightarrow> EscapeResult) \<Rightarrow> Color list \<Rightarrow> Color \<Rightarrow> real \<times> real \<Rightarrow> Color" where
  "pixel_color evaluate colors inSetColor pt =
     (case evaluate pt of Escaped n \<Rightarrow> colors ! n | Bounded \<Rightarrow> inSetColor)"

text \<open>
  Modelled from the spec: the pixel buffer builder \<^verbatim>\<open>mandelbrot_pixels\<close>, which
  \<^verbatim>\<open>update\<close> calls and which is defined outside the sources at hand. Section 4.3 of
  the spec gives its contract \<open>render(bounds, width, height, palette, inSetColor)\<close>:
  for every row \<open>y\<close> of \<open>[0, height)\<close> and every column \<open>x\<close> of
  \<open>[0, width)\<close> the pixel is mapped to its plane point and given the colour of that
  point. The raster is row-major.
\<close>

definition render ::
  "(real \<times> real \<Rightarrow> EscapeResult) \<Rightarrow> real \<Rightarrow> real \<Rightarrow> real \<Rightarrow> real \<Rightarrow> int \<Rightarrow> int \<Rightarrow>
     Color list \<Rightarrow> Color \<Rightarrow> Color list" where
  "render evaluate realLo realHi imagLo imagHi width height colors inSetColor =
     concat (map (\<lambda>y. map (\<lambda>x.
         pixel_color evaluate colors inSetColor
           (pixel_point realLo realHi imagLo imagHi width height (int x) (int y)))
       [0..<nat width]) [0..<nat height])"

text \<open>The evaluator of \<^verbatim>\<open>mandelbrot.c\<close> on the plane point \<open>(re, im)\<close>.\<close>

definition evaluate :: "'z complex_h \<Rightarrow> double \<Rightarrow> int \<Rightarrow> real \<times> real \<Rightarrow> EscapeResult" where
  "evaluate h thr maxit pt =
     escape_result (mandelbrot_in_set h thr maxit (cplx h (fst pt) (snd pt)))"

section \<open>The render state and its transitions (graphics.c)\<close>

text \<open>
  \<^verbatim>\<open>GState\<close> and \<^verbatim>\<open>Config\<close> are declared in \<^verbatim>\<open>header.h\<close>; their fields are
  the ones \<^verbatim>\<open>graphics.c\<close> reads and writes. The handles of the window, the renderer
  and the canvas belong to SDL and are left out; \<^verbatim>\<open>center.x\<close> and \<^verbatim>\<open>center.y\<close> are
  the fields \<open>center_x\<close> and \<open>center_y\<close>.
\<close>

record Config =
  config_window_w :: int
  config_window_h :: int
  config_real_range :: real
  config_imag_range :: real
  config_center_x :: real
  config_center_y :: real

record GState =
  running :: bool
  window_w :: int
  window_h :: int
  real_range :: real
  imag_range :: real
  center_x :: real
  center_y :: real
  in_set_color :: Color
  moving :: bool
  changed :: bool
  palette :: "Color list"

definition MOVE_RATIO :: real where "MOVE_RATIO = 10"
definition ZOOM_RATIO :: real where "ZOOM_RATIO = 11 / 10"

definition REAL_LO :: "GState \<Rightarrow> real" where
  "REAL_LO state = center_x state - real_range state / 2"
definition REAL_HI :: "GState \<Rightarrow> real" where
  "REAL_HI state = center_x state + real_range state / 2"
definition IMAG_LO :: "GState \<Rightarrow> real" where
  "IMAG_LO state = center_y state - imag_range state / 2"
definition IMAG_HI :: "GState \<Rightarrow> real" where
  "IMAG_HI state = center_y state + imag_range state / 2"

definition recenter_x :: "GState \<Rightarrow> int \<Rightarrow> GState" where
  "recenter_x state x =
     state\<lparr> center_x := map_range (of_int x) 0 (of_int (window_w state))
                           (REAL_LO state) (REAL_HI state) \<rparr>"

definition recenter_y :: "GState \<Rightarrow> int \<Rightarrow> GState" where
  "recenter_y state y =
     state\<lparr> center_y := map_range (of_int y) 0 (of_int (window_w state))
                           (IMAG_LO state) (IMAG_HI state) \<rparr>"

definition recenter :: "GState \<Rightarrow> int \<Rightarrow> int \<Rightarrow> GState" where
  "recenter state x y = recenter_y (recenter_x state x) y"

definition zoom_in :: "GState \<Rightarrow> real \<Rightarrow> GState" where
  "zoom_in state ratio =
     state\<lparr> real_range := real_range state / ratio, imag_range := imag_range state / ratio \<rparr>"

definition zoom_out :: "GState \<Rightarrow> real \<Rightarrow> GState" where
  "zoom_out state ratio =
     state\<lparr> real_range := real_range state * ratio, imag_range := imag_range state * ratio \<rparr>"

subsection \<open>The same transitions on doubles\<close>

text \<open>
  The four bounds and \<^verbatim>\<open>recenter\<close> with every operation rounded; \<open>None\<close> is an
  infinity or a NaN. The pixel and the width are C \<^verbatim>\<open>int\<close>s, which convert to
  \<^verbatim>\<open>double\<close> without rounding.
\<close>

definition REAL_LO_double :: "GState \<Rightarrow> real option" where
  "REAL_LO_double state = do { h \<leftarrow> fl_div (real_range state) 2; fl (center_x state - h) }"

definition REAL_HI_double :: "GState \<Rightarrow> real option" where
  "REAL_HI_double state = do { h \<leftarrow> fl_div (real_range state) 2; fl (center_x state + h) }"

definition IMAG_LO_double :: "GState \<Rightarrow> real option" where
  "IMAG_LO_double state = do { h \<leftarrow> fl_div (imag_range state) 2; fl (center_y state - h) }"

definition IMAG_HI_double :: "GState \<Rightarrow> real option" where
  "IMAG_HI_double state = do { h \<leftarrow> fl_div (imag_range state) 2; fl (center_y state + h) }"

text \<open>
  Modelled from the spec: \<^verbatim>\<open>map_range\<close> (see \<open>map_range\<close> above) on doubles, the
  formula of section 4.3 of the spec evaluated as C evaluates it, each operation rounded.
\<close>

definition map_range_double :: "real \<Rightarrow> real \<Rightarrow> real \<Rightarrow> real \<Rightarrow> real \<Rightarrow> real option" where
  "map_range_double v in_lo in_hi out_lo out_hi =
     do { a \<leftarrow> fl (v - in_lo);
          b \<leftarrow> fl (out_hi - out_lo);
          p \<leftarrow> fl (a * b);
          c \<leftarrow> fl (in_hi - in_lo);
          q \<leftarrow> fl_div p c;
          fl (out_lo + q) }"

definition recenter_x_double :: "GState \<Rightarrow> int \<Rightarrow> GState option" where
  "recenter_x_double state x =
     do { lo \<leftarrow> REAL_LO_double state;
          hi \<leftarrow> REAL_HI_double state;
          c \<leftarrow> map_range_double (of_int x) 0 (of_int (window_w state)) lo hi;
          Some (state\<lparr> center_x := c \<rparr>) }"

definition recenter_y_double :: "GState \<Rightarrow> int \<Rightarrow> GState option" where
  "recenter_y_double state y =
     do { lo \<leftarrow> IMAG_LO_double state;
          hi \<leftarrow> IMAG_HI_double state;
          c \<leftarrow> map_range_double (of_int y) 0 (of_int (window_w state)) lo hi;
          Some (state\<lparr> center_y := c \<rparr>) }"

definition recenter_double :: "GState \<Rightarrow> int \<Rightarrow> int \<Rightarrow> GState option" where
  "recenter_double state x y = do { s1 \<leftarrow> recenter_x_double state x; recenter_y_double s1 y }"

text \<open>
  What \<^verbatim>\<open>recenter_x\<close> stores in the centre \<open>c\<close> of an axis of extent \<open>r\<close>, for
  pixel \<open>x\<close> of a window \<open>w\<close> wide; \<^verbatim>\<open>recenter_y\<close> computes the same on its
  axis. Both bounds divide the range by 2 on their own.
\<close>

definition recentred :: "real \<Rightarrow> real \<Rightarrow> int \<Rightarrow> int \<Rightarrow> real option" where
  "recentred c r w x =
     do { h1 \<leftarrow> fl_div r 2; lo \<leftarrow> fl (c - h1);
          h2 \<leftarrow> fl_div r 2; hi \<leftarrow> fl (c + h2);
          map_range_double (of_int x) 0 (of_int w) lo hi }"

text \<open>
  \<open>new\<close> is \<open>old\<close> up to the rounding of a few operations on numbers of the size
  of the centre \<open>old\<close> and of the extent.
\<close>

definition within_rounding :: "real \<Rightarrow> real \<Rightarrow> real \<Rightarrow> bool" where
  "within_rounding new old extent \<longleftrightarrow>
     \<bar>new - old\<bar> \<le> (\<bar>old\<bar> + \<bar>extent\<bar>) / 2 ^ 48 + 1 / 2 ^ 1070"

subsection \<open>Events\<close>

text \<open>
  The events and keys \<^verbatim>\<open>event_handler\<close> tells apart; \<open>SDLK_other\<close> and
  \<open>SDL_OTHEREVENT\<close> stand for all the rest. A wheel event carries \<^verbatim>\<open>wheel.y\<close>, a
  button event the button and the pixel.
\<close>

datatype SDL_Keycode =
  SDLK_UP | SDLK_k | SDLK_DOWN | SDLK_j | SDLK_LEFT | SDLK_h | SDLK_RIGHT | SDLK_l
| SDLK_PLUS | SDLK_p | SDLK_MINUS | SDLK_m | SDLK_q | SDLK_other

datatype SDL_Button = SDL_BUTTON_LEFT | SDL_BUTTON_MIDDLE | SDL_BUTTON_RIGHT

datatype SDL_Event =
  SDL_QUIT
| SDL_KEYDOWN SDL_Keycode
| SDL_MOUSEWHEEL int
| SDL_MOUSEBUTTONDOWN SDL_Button int int
| SDL_OTHEREVENT

text \<open>
  What the program does to the outside, in order: a line printed by \<^verbatim>\<open>printf\<close>, a
  call of the pixel buffer builder with its arguments, a raster handed to
  \<^verbatim>\<open>SDL_RenderPresent\<close>.
\<close>

record pixels_call =
  arg_real_lo :: real
  arg_real_hi :: real
  arg_imag_lo :: real
  arg_imag_hi :: real
  arg_window_w :: int
  arg_window_h :: int
  arg_palette :: "Color list"

datatype action = Printed int int | Pixels_called pixels_call | Presented "Color list"

fun is_Pixels_called :: "action \<Rightarrow> bool" where
  "is_Pixels_called (Pixels_called c) = True"
| "is_Pixels_called a = False"

fun is_Presented :: "action \<Rightarrow> bool" where
  "is_Presented (Presented r) = True"
| "is_Presented a = False"

text \<open>The inner \<^verbatim>\<open>switch\<close> on the key of an \<^verbatim>\<open>SDL_KEYDOWN\<close> event.\<close>

fun key_down :: "GState \<Rightarrow> SDL_Keycode \<Rightarrow> GState" where
  "key_down state SDLK_UP = state\<lparr> center_y := center_y state - imag_range state / MOVE_RATIO \<rparr>"
| "key_down state SDLK_k = state\<lparr> center_y := center_y state - imag_range state / MOVE_RATIO \<rparr>"
| "key_down state SDLK_DOWN = state\<lparr> center_y := center_y state + imag_range state / MOVE_RATIO \<rparr>"
| "key_down state SDLK_j = state\<lparr> center_y := center_y state + imag_range state / MOVE_RATIO \<rparr>"
| "key_down state SDLK_LEFT = state\<lparr> center_x := center_x state - real_range state / MOVE_RATIO \<rparr>"
| "key_down state SDLK_h = state\<lparr> center_x := center_x state - real_range state / MOVE_RATIO \<rparr>"
| "key_down state SDLK_RIGHT = state\<lparr> center_x := center_x state + real_range state / MOVE_RATIO \<rparr>"
| "key_down state SDLK_l = state\<lparr> center_x := center_x state + real_range state / MOVE_RATIO \<rparr>"
| "key_down state SDLK_PLUS = zoom_in state ZOOM_RATIO"
| "key_down state SDLK_p = zoom_in state ZOOM_RATIO"
| "key_down state SDLK_MINUS = zoom_out state ZOOM_RATIO"
| "key_down state SDLK_m = zoom_out state ZOOM_RATIO"
| "key_down state SDLK_q = state\<lparr> running := False \<rparr>"
| "key_down state SDLK_other = state"

text \<open>The outer \<^verbatim>\<open>switch\<close> on the type of the event.\<close>

fun dispatch :: "GState \<Rightarrow> SDL_Event \<Rightarrow> action list \<times> GState" where
  "dispatch state SDL_QUIT = ([], state\<lparr> running := False \<rparr>)"
| "dispatch state (SDL_KEYDOWN key) = ([], key_down state key)"
| "dispatch state (SDL_MOUSEWHEEL wy) =
     ([], if wy = - 1 then zoom_in state ZOOM_RATIO
          else if wy = 1 then zoom_out state ZOOM_RATIO
          else state)"
| "dispatch state (SDL_MOUSEBUTTONDOWN button x y) =
     ([Printed x y], if button = SDL_BUTTON_RIGHT then recenter state x y else state)"
| "dispatch state SDL_OTHEREVENT = ([], state)"

text \<open>
  One turn of the \<^verbatim>\<open>while (SDL_PollEvent(&e))\<close> loop: the switch, then
  \<^verbatim>\<open>state->changed = true\<close>.
\<close>

definition handle_event :: "GState \<Rightarrow> SDL_Event \<Rightarrow> action list \<times> GState" where
  "handle_event state e = (case dispatch state e of (out, s) \<Rightarrow> (out, s\<lparr> changed := True \<rparr>))"

text \<open>
  \<^verbatim>\<open>event_handler\<close> polls until the queue is empty; the list holds the events it
  polls, in order.
\<close>

fun event_handler :: "GState \<Rightarrow> SDL_Event list \<Rightarrow> action list \<times> GState" where
  "event_handler state [] = ([], state)"
| "event_handler state (e # es) =
     (case handle_event state e of (out1, s1) \<Rightarrow>
        (case event_handler s1 es of (out2, s2) \<Rightarrow> (out1 @ out2, s2)))"

subsection \<open>Rendering\<close>

text \<open>
  \<^verbatim>\<open>error_exit\<close> logs its message and ends the process. The outcomes of the calls
  to SDL in \<^verbatim>\<open>update\<close> are inputs of the model, and so is the pixel buffer builder,
  which returns \<open>None\<close> for the null pointer.
\<close>

datatype error = Exit string

record sdl_results =
  surface_ok :: bool
  texture_ok :: bool
  query_ok :: bool
  copy_ok :: bool

definition pixels_call_of :: "GState \<Rightarrow> pixels_call" where
  "pixels_call_of state =
     \<lparr> arg_real_lo = REAL_LO state, arg_real_hi = REAL_HI state,
       arg_imag_lo = IMAG_LO state, arg_imag_hi = IMAG_HI state,
       arg_window_w = window_w state, arg_window_h = window_h state,
       arg_palette = palette state \<rparr>"

definition update ::
  "(pixels_call \<Rightarrow> Color list option) \<Rightarrow> sdl_results \<Rightarrow> GState \<Rightarrow> action list \<times> (error + unit)" where
  "update mandelbrot_pixels sdl state =
     (case mandelbrot_pixels (pixels_call_of state) of
        None \<Rightarrow> ([Pixels_called (pixels_call_of state)], Inl (Exit ''unable to create pixels''))
      | Some pixels \<Rightarrow>
          if \<not> surface_ok sdl then
            ([Pixels_called (pixels_call_of state)], Inl (Exit ''unable to create pixels surface''))
          else if \<not> texture_ok sdl then
            ([Pixels_called (pixels_call_of state)], Inl (Exit ''unable to create texture''))
          else if \<not> query_ok sdl then
            ([Pixels_called (pixels_call_of state)], Inl (Exit ''unable to load texture''))
          else if \<not> copy_ok sdl then
            ([Pixels_called (pixels_call_of state)], Inl (Exit ''unable to render texture''))
          else ([Pixels_called (pixels_call_of state), Presented pixels], Inr ()))"

text \<open>
  The body of the \<^verbatim>\<open>while (state->running)\<close> loop of \<^verbatim>\<open>graphics_run\<close>, one
  tick: \<open>events\<close> are the events queued at this tick. The delay at its end is not
  modelled.
\<close>

definition tick ::
  "(pixels_call \<Rightarrow> Color list option) \<Rightarrow> sdl_results \<Rightarrow> GState \<Rightarrow> SDL_Event list \<Rightarrow>
     action list \<times> (error + GState)" where
  "tick mandelbrot_pixels sdl state events =
     (case event_handler state events of (out1, s1) \<Rightarrow>
        if changed s1 then
          (case update mandelbrot_pixels sdl s1 of
             (out2, Inl e) \<Rightarrow> (out1 @ out2, Inl e)
           | (out2, Inr u) \<Rightarrow> (out1 @ out2, Inr (s1\<lparr> changed := False \<rparr>)))
        else (out1, Inr s1))"

subsection \<open>Start\<close>

text \<open>
  \<^verbatim>\<open>graphics_init\<close>: the outcomes of the calls that can fail are inputs of the
  model, \<open>palette_heap\<close> being what \<^verbatim>\<open>malloc\<close> does for the palette, and
  \<open>maxit\<close> is \<^verbatim>\<open>MAX_ITERATION\<close>. Each failure ends the process with its message.
\<close>

record init_results =
  sdl_init_ok :: bool
  state_alloc_ok :: bool
  window_created :: bool
  renderer_created :: bool
  palette_heap :: "(nat \<Rightarrow> Color) option"
  canvas_created :: bool

definition graphics_init :: "init_results \<Rightarrow> int \<Rightarrow> Config \<Rightarrow> error + GState" where
  "graphics_init env maxit config =
     (if \<not> sdl_init_ok env then Inl (Exit ''unable to init SDL'')
      else if \<not> state_alloc_ok env then Inl (Exit ''state allocation failed'')
      else if \<not> window_created env then Inl (Exit ''unable to create window'')
      else if \<not> renderer_created env then Inl (Exit ''unable to create renderer'')
      else
        (case create_palette (palette_heap env) maxit
                (Color_of_hexcode PALETTE_START) (Color_of_hexcode PALETTE_END) of
           None \<Rightarrow> Inl (Exit ''unable to create color palette'')
         | Some colors \<Rightarrow>
             if \<not> canvas_created env then Inl (Exit ''unable to create canvas texture'')
             else Inr \<lparr> running = True,
                        window_w = config_window_w config,
                        window_h = config_window_h config,
                        real_range = config_real_range config,
                        imag_range = config_imag_range config,
                        center_x = config_center_x config,
                        center_y = config_center_y config,
                        in_set_color = Color_of_hexcode IN_SET_COLOR,
                        moving = False,
                        changed = True,
                        palette = colors \<rparr>))"

subsection \<open>Example states\<close>

text \<open>
  The state of a \<open>w \<times> h\<close> window onto the square of side \<open>side\<close> around the
  origin, with the palette of \<^verbatim>\<open>MAX_ITERATION = 1\<close>, once its first frame is drawn
  (\<open>changed\<close> is false).
\<close>

definition example_config :: "int \<Rightarrow> int \<Rightarrow> real \<Rightarrow> Config" where
  "example_config w h side =
     \<lparr> config_window_w = w, config_window_h = h,
       config_real_range = side, config_imag_range = side,
       config_center_x = 0, config_center_y = 0 \<rparr>"

definition example_state :: "int \<Rightarrow> int \<Rightarrow> real \<Rightarrow> GState" where
  "example_state w h side =
     \<lparr> running = True, window_w = w, window_h = h,
       real_range = side, imag_range = side, center_x = 0, center_y = 0,
       in_set_color = Color_of_hexcode IN_SET_COLOR, moving = False, changed = False,
       palette = [Color_of_hexcode PALETTE_START, Color_of_hexcode 0x0] \<rparr>"

text \<open>
  A window of 100 by 100 pixels onto an extent of 3, centred on the double nearest to
  \<open>-0.8\<close> on the real axis: where one press of the left key takes the centre
  \<open>-0.5\<close>.
\<close>

definition near_08 :: GState where
  "near_08 = (example_state 100 100 3)\<lparr> center_x := - 3602879701896397 / 4503599627370496 \<rparr>"

definition all_created :: init_results where
  "all_created =
     \<lparr> sdl_init_ok = True, state_alloc_ok = True, window_created = True,
       renderer_created = True, palette_heap = Some (\<lambda>k. Color_of_hexcode 0xffffff),
       canvas_created = True \<rparr>"

definition all_ok :: sdl_results where
  "all_ok = \<lparr> surface_ok = True, texture_ok = True, query_ok = True, copy_ok = True \<rparr>"

text \<open>
  Modelled from the spec: the builder \<open>render\<close> in the shape in which
  \<^verbatim>\<open>update\<close> calls \<^verbatim>\<open>mandelbrot_pixels\<close>, for a given evaluator and in-set
  colour, on a heap that never runs out.
\<close>

definition render_call ::
  "(real \<times> real \<Rightarrow> EscapeResult) \<Rightarrow> Color \<Rightarrow> pixels_call \<Rightarrow> Color list option" where
  "render_call ev inSetColor c =
     Some (render ev (arg_real_lo c) (arg_real_hi c) (arg_imag_lo c) (arg_imag_hi c)
             (arg_window_w c) (arg_window_h c) (arg_palette c) inSetColor)"

section \<open>Properties of the evaluator\<close>

lemma double_gt_PosInf: "double_gt a PosInf = False"
  by (cases a) simp_all

lemma in_set_loop_range:
  "0 \<le> i \<Longrightarrow>
   fst (in_set_loop h thr maxit c i z n) = - 1 \<or>
   (i \<le> fst (in_set_loop h thr maxit c i z n) \<and> fst (in_set_loop h thr maxit c i z n) < maxit)"
proof (induction h thr maxit c i z n rule: in_set_loop.induct)
  case (1 h thr maxit c i z n)
  show ?case
  proof (cases "i < maxit")
    case False
    then show ?thesis by (simp add: in_set_loop.simps [of h thr maxit c i z n])
  next
    case True
    define z' where "z' = cadd h (cpow h z (cplx h 2 0)) c"
    show ?thesis
    proof (cases "double_gt (cabs h z') thr")
      case esc: True
      with True show ?thesis
        by (simp add: in_set_loop.simps [of h thr maxit c i z n] z'_def)
    next
      case noesc: False
      have eq: "in_set_loop h thr maxit c i z n = in_set_loop h thr maxit c (i + 1) z' (Suc n)"
        using True noesc by (simp add: in_set_loop.simps [of h thr maxit c i z n] z'_def)
      have "0 \<le> i + 1" using "1.prems" by simp
      from "1.IH" [OF True z'_def noesc this] show ?thesis
        unfolding eq by auto
    qed
  qed
qed

lemma in_set_loop_count:
  "snd (in_set_loop h thr maxit c i z n) \<le> n + nat (maxit - i)"
proof (induction h thr maxit c i z n rule: in_set_loop.induct)
  case (1 h thr maxit c i z n)
  show ?case
  proof (cases "i < maxit")
    case False
    then show ?thesis by (simp add: in_set_loop.simps [of h thr maxit c i z n])
  next
    case True
    define z' where "z' = cadd h (cpow h z (cplx h 2 0)) c"
    show ?thesis
    proof (cases "double_gt (cabs h z') thr")
      case esc: True
      with True show ?thesis
        by (simp add: in_set_loop.simps [of h thr maxit c i z n] z'_def)
    next
      case noesc: False
      have eq: "in_set_loop h thr maxit c i z n = in_set_loop h thr maxit c (i + 1) z' (Suc n)"
        using True noesc by (simp add: in_set_loop.simps [of h thr maxit c i z n] z'_def)
      from "1.IH" [OF True z'_def noesc] True show ?thesis
        unfolding eq by simp
    qed
  qed
qed

lemma in_set_loop_never:
  "in_set_loop h PosInf maxit c i z n = (- 1, n + nat (maxit - i))"
proof (induction h PosInf maxit c i z n rule: in_set_loop.induct)
  case (1 h maxit c i z n)
  show ?case
  proof (cases "i < maxit")
    case False
    then show ?thesis by (simp add: in_set_loop.simps [of h PosInf maxit c i z n])
  next
    case True
    define z' where "z' = cadd h (cpow h z (cplx h 2 0)) c"
    have noesc: "\<not> double_gt (cabs h z') PosInf"
      by (simp add: double_gt_PosInf)
    have eq: "in_set_loop h PosInf maxit c i z n = in_set_loop h PosInf maxit c (i + 1) z' (Suc n)"
      using True noesc by (simp add: in_set_loop.simps [of h PosInf maxit c i z n] z'_def)
    from "1.hyps" [OF True z'_def noesc] True show ?thesis
      unfolding eq by (simp add: nat_diff_distrib')
  qed
qed

text \<open>
  Claim C8. For every complex input, whatever the threshold and the complex
  arithmetic, \<^verbatim>\<open>mandelbrot_in_set\<close> returns \<^verbatim>\<open>-1\<close> (bounded) or an iteration index
  \<open>n\<close> with \<open>0 \<le> n < MAX_ITERATION\<close>, and its loop body runs at most
  \<^verbatim>\<open>MAX_ITERATION\<close> times (the loop is a total function).
\<close>

theorem evaluator_bound:
  "(mandelbrot_in_set h thr maxit c = - 1 \<or>
      (0 \<le> mandelbrot_in_set h thr maxit c \<and> mandelbrot_in_set h thr maxit c < maxit)) \<and>
   int (mandelbrot_iterations h thr maxit c) \<le> max 0 maxit"
proof -
  have r: "mandelbrot_in_set h thr maxit c = - 1 \<or>
      (0 \<le> mandelbrot_in_set h thr maxit c \<and> mandelbrot_in_set h thr maxit c < maxit)"
    unfolding mandelbrot_in_set_def
    using in_set_loop_range [of 0 h thr maxit c "cplx h 0 0" 0] by simp
  have "mandelbrot_iterations h thr maxit c \<le> nat maxit"
    unfolding mandelbrot_iterations_def
    using in_set_loop_count [of h thr maxit c 0 "cplx h 0 0" 0] by simp
  then have "int (mandelbrot_iterations h thr maxit c) \<le> max 0 maxit"
    by linarith
  with r show ?thesis by simp
qed

text \<open>
  Claim C1. With the infinite threshold, the escape comparison is never true: for every
  complex input the loop body runs \<^verbatim>\<open>MAX_ITERATION\<close> times and the function returns
  \<^verbatim>\<open>-1\<close>, the bounded sentinel.
\<close>

theorem never_escapes:
  "mandelbrot_in_set h C_INFINITY maxit c = - 1 \<and>
   int (mandelbrot_iterations h C_INFINITY maxit c) = max 0 maxit \<and>
   escape_result (mandelbrot_in_set h C_INFINITY maxit c) = Bounded \<and>
   double_gt (cabs h z) C_INFINITY = False"
  by (simp add: mandelbrot_in_set_def mandelbrot_iterations_def C_INFINITY_def
      in_set_loop_never double_gt_PosInf escape_result_def)


lemma evaluate_infinite: "evaluate h C_INFINITY maxit pt = Bounded"
  by (simp add: evaluate_def mandelbrot_in_set_def C_INFINITY_def in_set_loop_never
      escape_result_def)

text \<open>
  Claim C2, on the code: with the infinite threshold the point \<open>2 + 0i\<close> comes out
  bounded (the function returns \<^verbatim>\<open>-1\<close>), as \<open>0 + 0i\<close> and \<open>-1 + 0i\<close> do.
\<close>

theorem known_membership_on_code:
  "mandelbrot_in_set h C_INFINITY maxit (cplx h 2 0) = - 1 \<and>
   evaluate h C_INFINITY maxit (2, 0) = Bounded \<and>
   evaluate h C_INFINITY maxit (0, 0) = Bounded \<and>
   evaluate h C_INFINITY maxit (- 1, 0) = Bounded"
proof -
  have "mandelbrot_in_set h C_INFINITY maxit (cplx h 2 0) = - 1"
    by (simp add: mandelbrot_in_set_def C_INFINITY_def in_set_loop_never)
  then show ?thesis
    by (simp add: evaluate_infinite)
qed

text \<open>
  For comparison: with the finite threshold 2 and exact arithmetic the same point escapes,
  at index 1 (\<open>|2| > 2\<close> is false at index 0, \<open>|6| > 2\<close> is true at index 1).
\<close>

lemma threshold_two_escapes_at_one:
  "mandelbrot_in_set exact_complex (Finite 2) 2 (Complex 2 0) = 1"
proof -
  have z1: "cadd exact_complex (cpow exact_complex (cplx exact_complex 0 0) (cplx exact_complex 2 0))
      (Complex 2 0) = 2"
    by (simp add: exact_complex_def complex_eq_iff)
  have z2: "cadd exact_complex (cpow exact_complex 2 (cplx exact_complex 2 0)) (Complex 2 0) = 6"
    by (simp add: exact_complex_def complex_eq_iff)
  have a: "cabs exact_complex 2 = Finite 2" "cabs exact_complex 6 = Finite 6"
    by (simp_all add: exact_complex_def)
  show ?thesis
    unfolding mandelbrot_in_set_def
    by (simp add: in_set_loop.simps [of _ _ 2 _ 0] in_set_loop.simps [of _ _ 2 _ 1]
        Let_def z1 z2 a)
qed

section \<open>Properties of the palette\<close>

lemma palette_loop_length:
  "length (palette_loop maxit rs gs bs start i p) = length p"
proof (induction maxit rs gs bs start i p rule: palette_loop.induct)
  case (1 maxit rs gs bs start i p)
  show ?case
  proof (cases "i < maxit")
    case True
    with "1.IH" show ?thesis
      by (simp add: palette_loop.simps [of maxit rs gs bs start i p])
  next
    case False
    then show ?thesis
      by (simp add: palette_loop.simps [of maxit rs gs bs start i p])
  qed
qed

lemma palette_loop_nth:
  "0 \<le> i \<Longrightarrow> nat maxit \<le> length p \<Longrightarrow> k < length p \<Longrightarrow>
   palette_loop maxit rs gs bs start i p ! k =
     (if nat i \<le> k \<and> k < nat maxit then
        (p ! k) \<lparr> rgb_r := word_of_int (int k * rs + uint (rgb_r start)),
                  rgb_g := word_of_int (int k * gs + uint (rgb_g start)),
                  rgb_b := word_of_int (int k * bs + uint (rgb_b start)) \<rparr>
      else p ! k)"
proof (induction maxit rs gs bs start i p rule: palette_loop.induct)
  case (1 maxit rs gs bs start i p)
  show ?case
  proof (cases "i < maxit")
    case False
    with "1.prems" have "\<not> (nat i \<le> k \<and> k < nat maxit)" by linarith
    with False show ?thesis
      by (auto simp: palette_loop.simps [of maxit rs gs bs start i p])
  next
    case True
    let ?p' = "p[nat i := (p ! nat i)
             \<lparr> rgb_r := word_of_int (i * rs + uint (rgb_r start)),
               rgb_g := word_of_int (i * gs + uint (rgb_g start)),
               rgb_b := word_of_int (i * bs + uint (rgb_b start)) \<rparr>]"
    have eq: "palette_loop maxit rs gs bs start i p =
        palette_loop maxit rs gs bs start (i + 1) ?p'"
      using True by (simp add: palette_loop.simps [of maxit rs gs bs start i p])
    have ih: "palette_loop maxit rs gs bs start (i + 1) ?p' ! k =
       (if nat (i + 1) \<le> k \<and> k < nat maxit then
        (?p' ! k) \<lparr> rgb_r := word_of_int (int k * rs + uint (rgb_r start)),
                  rgb_g := word_of_int (int k * gs + uint (rgb_g start)),
                  rgb_b := word_of_int (int k * bs + uint (rgb_b start)) \<rparr>
        else ?p' ! k)"
      using "1.IH" [OF True] "1.prems" by simp
    show ?thesis
    proof (cases "k = nat i")
      case True
      with \<open>i < maxit\<close> "1.prems" show ?thesis
        unfolding eq ih by simp
    next
      case False
      with \<open>i < maxit\<close> "1.prems" show ?thesis
        unfolding eq ih by (auto simp: nat_add_distrib)
    qed
  qed
qed


lemma c_div_nonneg: "0 \<le> a \<Longrightarrow> 0 < b \<Longrightarrow> c_div a b = a div b"
  by (cases "a = 0") (simp_all add: c_div_def)

lemma gradient_no_overflow:
  fixes s e :: "8 word" and i maxit :: int
  assumes "s \<le> e" "0 \<le> i" "i < maxit"
  shows "0 \<le> uint s + i * (\<bar>uint e - uint s\<bar> div maxit)"
    and "uint s + i * (\<bar>uint e - uint s\<bar> div maxit) < 256"
proof -
  define d where "d = uint e - uint s"
  have d0: "0 \<le> d" using assms(1) by (simp add: d_def word_le_def)
  have m0: "0 < maxit" using assms by linarith
  have q0: "0 \<le> d div maxit" using d0 m0 by (simp add: pos_imp_zdiv_nonneg_iff)
  have "i * (d div maxit) \<le> maxit * (d div maxit)"
    using assms(3) q0 by (simp add: mult_right_mono)
  also have "\<dots> \<le> d"
  proof -
    have "maxit * (d div maxit) + d mod maxit = d" by simp
    moreover have "0 \<le> d mod maxit" using m0 by simp
    ultimately show ?thesis by linarith
  qed
  finally have le: "i * (d div maxit) \<le> d" .
  have e: "uint e < 256" using uint_bounded [of e] by simp
  have s0: "0 \<le> uint s" by simp
  have ad: "\<bar>uint e - uint s\<bar> = d" using d0 by (simp add: d_def)
  show "0 \<le> uint s + i * (\<bar>uint e - uint s\<bar> div maxit)"
    unfolding ad using s0 assms(2) q0 by simp
  show "uint s + i * (\<bar>uint e - uint s\<bar> div maxit) < 256"
    unfolding ad using le e by (simp add: d_def)
qed

lemma create_palette_Some:
  "create_palette (Some junk) maxit start endc =
     Some ((palette_loop maxit
              (c_div \<bar>uint (rgb_r endc) - uint (rgb_r start)\<bar> maxit)
              (c_div \<bar>uint (rgb_g endc) - uint (rgb_g start)\<bar> maxit)
              (c_div \<bar>uint (rgb_b endc) - uint (rgb_b start)\<bar> maxit)
              start 0 (map junk [0..<nat (maxit + 1)]))
           [nat maxit := Color_of_hexcode 0x0])"
  by (simp add: create_palette_def malloc_Color_def Let_def)

lemma create_palette_entry:
  assumes m: "0 < maxit" and i: "0 \<le> i" "i < maxit"
    and p: "create_palette (Some junk) maxit start endc = Some p"
  shows "rgb_r (p ! nat i) = word_of_int (gradient_channel maxit (rgb_r start) (rgb_r endc) i)"
    and "rgb_g (p ! nat i) = word_of_int (gradient_channel maxit (rgb_g start) (rgb_g endc) i)"
    and "rgb_b (p ! nat i) = word_of_int (gradient_channel maxit (rgb_b start) (rgb_b endc) i)"
proof -
  let ?rs = "c_div \<bar>uint (rgb_r endc) - uint (rgb_r start)\<bar> maxit"
  let ?gs = "c_div \<bar>uint (rgb_g endc) - uint (rgb_g start)\<bar> maxit"
  let ?bs = "c_div \<bar>uint (rgb_b endc) - uint (rgb_b start)\<bar> maxit"
  let ?arr = "map junk [0..<nat (maxit + 1)]"
  have p_eq: "p = (palette_loop maxit ?rs ?gs ?bs start 0 ?arr)[nat maxit := Color_of_hexcode 0x0]"
    using p unfolding create_palette_Some by simp
  have len: "length ?arr = nat (maxit + 1)" by simp
  have k: "nat i < length ?arr" "nat i \<noteq> nat maxit" "nat maxit \<le> length ?arr"
    using m i by simp_all
  have nth: "p ! nat i = palette_loop maxit ?rs ?gs ?bs start 0 ?arr ! nat i"
    unfolding p_eq using k(2) by simp
  have loop: "palette_loop maxit ?rs ?gs ?bs start 0 ?arr ! nat i =
      (?arr ! nat i) \<lparr> rgb_r := word_of_int (int (nat i) * ?rs + uint (rgb_r start)),
                  rgb_g := word_of_int (int (nat i) * ?gs + uint (rgb_g start)),
                  rgb_b := word_of_int (int (nat i) * ?bs + uint (rgb_b start)) \<rparr>"
    using palette_loop_nth [of 0 maxit ?arr "nat i" ?rs ?gs ?bs start] k i by simp
  have steps: "?rs = \<bar>uint (rgb_r endc) - uint (rgb_r start)\<bar> div maxit"
    "?gs = \<bar>uint (rgb_g endc) - uint (rgb_g start)\<bar> div maxit"
    "?bs = \<bar>uint (rgb_b endc) - uint (rgb_b start)\<bar> div maxit"
    using m by (simp_all add: c_div_nonneg)
  have ii: "int (nat i) = i" using i by simp
  have final: "p ! nat i =
      (?arr ! nat i) \<lparr> rgb_r := word_of_int (gradient_channel maxit (rgb_r start) (rgb_r endc) i),
                  rgb_g := word_of_int (gradient_channel maxit (rgb_g start) (rgb_g endc) i),
                  rgb_b := word_of_int (gradient_channel maxit (rgb_b start) (rgb_b endc) i) \<rparr>"
    unfolding nth loop ii gradient_channel_def steps [symmetric] by (simp add: add.commute)
  show "rgb_r (p ! nat i) = word_of_int (gradient_channel maxit (rgb_r start) (rgb_r endc) i)"
    unfolding final by simp
  show "rgb_g (p ! nat i) = word_of_int (gradient_channel maxit (rgb_g start) (rgb_g endc) i)"
    unfolding final by simp
  show "rgb_b (p ! nat i) = word_of_int (gradient_channel maxit (rgb_b start) (rgb_b endc) i)"
    unfolding final by simp
qed

lemma gradient_channel_fits:
  assumes "s \<le> e" "0 \<le> i" "i < maxit"
  shows "uint (word_of_int (gradient_channel maxit s e i) :: 8 word) = gradient_channel maxit s e i"
proof -
  have "0 \<le> gradient_channel maxit s e i" "gradient_channel maxit s e i < 256"
    unfolding gradient_channel_def using gradient_no_overflow [OF assms] by simp_all
  then show ?thesis by (simp add: uint_word_of_int take_bit_eq_mod)
qed

text \<open>
  Claim C7. \<^verbatim>\<open>create_palette(start, end)\<close> returns the null pointer when the
  allocation fails, and otherwise a table of exactly \<^verbatim>\<open>MAX_ITERATION + 1\<close>
  colours. For every index \<open>i\<close> in
  \<open>[0, MAX_ITERATION)\<close> and each channel on its own, the entry holds
  \<open>start.channel + i * step\<close> with \<open>step = |end.channel - start.channel| /
  MAX_ITERATION\<close> (truncating division), stored in the byte of the channel; the stored
  byte is that very number whenever \<open>start.channel \<le> end.channel\<close>. The last slot,
  \<^verbatim>\<open>palette[MAX_ITERATION]\<close>, is the zero colour.
\<close>

theorem create_palette_table:
  assumes "0 < maxit"
  shows "create_palette None maxit start endc = None \<and>
   (\<exists>p. create_palette (Some junk) maxit start endc = Some p \<and>
     int (length p) = maxit + 1 \<and>
     p ! nat maxit = \<lparr> rgb_r = 0, rgb_g = 0, rgb_b = 0 \<rparr> \<and>
     (\<forall>i. 0 \<le> i \<and> i < maxit \<longrightarrow>
        rgb_r (p ! nat i) = word_of_int (gradient_channel maxit (rgb_r start) (rgb_r endc) i) \<and>
        rgb_g (p ! nat i) = word_of_int (gradient_channel maxit (rgb_g start) (rgb_g endc) i) \<and>
        rgb_b (p ! nat i) = word_of_int (gradient_channel maxit (rgb_b start) (rgb_b endc) i) \<and>
        (rgb_r start \<le> rgb_r endc \<longrightarrow>
           uint (rgb_r (p ! nat i)) = gradient_channel maxit (rgb_r start) (rgb_r endc) i) \<and>
        (rgb_g start \<le> rgb_g endc \<longrightarrow>
           uint (rgb_g (p ! nat i)) = gradient_channel maxit (rgb_g start) (rgb_g endc) i) \<and>
        (rgb_b start \<le> rgb_b endc \<longrightarrow>
           uint (rgb_b (p ! nat i)) = gradient_channel maxit (rgb_b start) (rgb_b endc) i)))"
proof -
  have null: "create_palette None maxit start endc = None"
    by (simp add: create_palette_def malloc_Color_def Let_def)
  obtain p where p: "create_palette (Some junk) maxit start endc = Some p"
    by (simp add: create_palette_Some)
  have len: "int (length p) = maxit + 1"
    using p assms unfolding create_palette_Some by (auto simp: palette_loop_length)
  have last: "p ! nat maxit = \<lparr> rgb_r = 0, rgb_g = 0, rgb_b = 0 \<rparr>"
    using p assms unfolding create_palette_Some
    by (auto simp: palette_loop_length Color_of_hexcode_def)
  have entries: "rgb_r (p ! nat i) = word_of_int (gradient_channel maxit (rgb_r start) (rgb_r endc) i) \<and>
        rgb_g (p ! nat i) = word_of_int (gradient_channel maxit (rgb_g start) (rgb_g endc) i) \<and>
        rgb_b (p ! nat i) = word_of_int (gradient_channel maxit (rgb_b start) (rgb_b endc) i) \<and>
        (rgb_r start \<le> rgb_r endc \<longrightarrow>
           uint (rgb_r (p ! nat i)) = gradient_channel maxit (rgb_r start) (rgb_r endc) i) \<and>
        (rgb_g start \<le> rgb_g endc \<longrightarrow>
           uint (rgb_g (p ! nat i)) = gradient_channel maxit (rgb_g start) (rgb_g endc) i) \<and>
        (rgb_b start \<le> rgb_b endc \<longrightarrow>
           uint (rgb_b (p ! nat i)) = gradient_channel maxit (rgb_b start) (rgb_b endc) i)"
    if i: "0 \<le> i \<and> i < maxit" for i
  proof -
    from i have i': "0 \<le> i" "i < maxit" by simp_all
    note e = create_palette_entry [OF assms i' p]
    show ?thesis
      unfolding e using gradient_channel_fits [OF _ i'] by simp
  qed
  from null p len last entries show ?thesis by blast
qed

theorem create_palette_table_witness:
  "0 < (4::int) \<and>
   (\<exists>p. create_palette (Some (\<lambda>k. Color_of_hexcode 0xffffff)) 4
          (Color_of_hexcode PALETTE_START) (Color_of_hexcode PALETTE_END) = Some p \<and>
        length p = 5 \<and>
        p ! 4 = \<lparr> rgb_r = 0, rgb_g = 0, rgb_b = 0 \<rparr> \<and>
        p ! 3 = \<lparr> rgb_r = 43, rgb_g = 33, rgb_b = 159 \<rparr>)"
proof -
  have h: "0 < (4::int)" by simp
  let ?s = "Color_of_hexcode PALETTE_START" and ?e = "Color_of_hexcode PALETTE_END"
  from create_palette_table [OF h, of ?s ?e "\<lambda>k. Color_of_hexcode 0xffffff"]
  obtain p where p: "create_palette (Some (\<lambda>k. Color_of_hexcode 0xffffff)) 4 ?s ?e = Some p"
    and len: "int (length p) = 4 + 1"
    and last: "p ! nat 4 = \<lparr> rgb_r = 0, rgb_g = 0, rgb_b = 0 \<rparr>"
    and ent: "\<forall>i. 0 \<le> i \<and> i < 4 \<longrightarrow>
        rgb_r (p ! nat i) = word_of_int (gradient_channel 4 (rgb_r ?s) (rgb_r ?e) i) \<and>
        rgb_g (p ! nat i) = word_of_int (gradient_channel 4 (rgb_g ?s) (rgb_g ?e) i) \<and>
        rgb_b (p ! nat i) = word_of_int (gradient_channel 4 (rgb_b ?s) (rgb_b ?e) i) \<and>
        (rgb_r ?s \<le> rgb_r ?e \<longrightarrow>
           uint (rgb_r (p ! nat i)) = gradient_channel 4 (rgb_r ?s) (rgb_r ?e) i) \<and>
        (rgb_g ?s \<le> rgb_g ?e \<longrightarrow>
           uint (rgb_g (p ! nat i)) = gradient_channel 4 (rgb_g ?s) (rgb_g ?e) i) \<and>
        (rgb_b ?s \<le> rgb_b ?e \<longrightarrow>
           uint (rgb_b (p ! nat i)) = gradient_channel 4 (rgb_b ?s) (rgb_b ?e) i)"
    by blast
  from ent [rule_format, of 3]
  have "rgb_r (p ! 3) = 43" "rgb_g (p ! 3) = 33" "rgb_b (p ! 3) = 159"
    by (simp_all add: gradient_channel_def Color_of_hexcode_def PALETTE_START_def PALETTE_END_def)
  then have "p ! 3 = \<lparr> rgb_r = 43, rgb_g = 33, rgb_b = 159 \<rparr>"
    by (cases "p ! 3") simp
  with h p len last show ?thesis by simp
qed

lemma upt_two: "[0..<2] = [0, Suc 0]"
proof -
  have "[0..<Suc (Suc 0)] = [0, Suc 0]" by simp
  then show ?thesis by (simp only: numeral_2_eq_2)
qed

lemma palette_loop_one:
  "palette_loop 1 rs gs bs st 0 [a, b] =
     [a\<lparr> rgb_r := rgb_r st, rgb_g := rgb_g st, rgb_b := rgb_b st \<rparr>, b]"
proof -
  have "palette_loop 1 rs gs bs st 1 xs = xs" for xs
    by (simp add: palette_loop.simps [of 1 rs gs bs st 1 xs])
  then show ?thesis
    by (simp add: palette_loop.simps [of 1 rs gs bs st 0 "[a, b]"])
qed

lemma example_state_reached:
  "graphics_init all_created 1 (example_config w h side) =
     Inr ((example_state w h side)\<lparr> changed := True \<rparr>)"
proof -
  have "create_palette (palette_heap all_created) 1
          (Color_of_hexcode PALETTE_START) (Color_of_hexcode PALETTE_END) =
        Some [Color_of_hexcode PALETTE_START, Color_of_hexcode 0x0]"
    unfolding all_created_def
    by (simp add: create_palette_Some upt_two palette_loop_one Color_of_hexcode_def)
  then show ?thesis
    by (simp add: graphics_init_def all_created_def example_config_def example_state_def)
qed

section \<open>Properties of the pixel buffer builder\<close>

lemma length_concat_rows:
  "length (concat (map (\<lambda>y. map (f y) [0..<n]) [0..<m])) = m * n"
  by (induction m) simp_all

lemma concat_rows_nth:
  "i < m \<Longrightarrow> j < n \<Longrightarrow> concat (map (\<lambda>y. map (f y) [0..<n]) [0..<m]) ! (i * n + j) = f i j"
proof (induction m)
  case 0
  then show ?case by simp
next
  case (Suc m)
  show ?case
  proof (cases "i < m")
    case True
    have "i * n + j < i * n + n" using Suc.prems by simp
    also have "\<dots> = Suc i * n" by simp
    also have "\<dots> \<le> m * n" using True by (intro mult_le_mono1) simp
    finally have "i * n + j < m * n" .
    with Suc.IH [OF True Suc.prems(2)] show ?thesis
      by (simp add: nth_append length_concat_rows)
  next
    case False
    with Suc.prems have "i = m" by simp
    with Suc.prems show ?thesis
      by (simp add: nth_append length_concat_rows)
  qed
qed

lemma graphics_init_colors:
  assumes "graphics_init env maxit config = Inr s" and "0 < maxit"
  shows "in_set_color s = \<lparr> rgb_r = 5, rgb_g = 5, rgb_b = 5 \<rparr>"
    and "palette s ! nat maxit = \<lparr> rgb_r = 0, rgb_g = 0, rgb_b = 0 \<rparr>"
    and "int (length (palette s)) = maxit + 1"
proof -
  from assms(1) obtain junk where j: "palette_heap env = Some junk"
    by (cases "palette_heap env")
       (auto simp: graphics_init_def create_palette_def malloc_Color_def Let_def
             split: if_splits)
  let ?p = "(palette_loop maxit
              (c_div \<bar>uint (rgb_r (Color_of_hexcode PALETTE_END)) - uint (rgb_r (Color_of_hexcode PALETTE_START))\<bar> maxit)
              (c_div \<bar>uint (rgb_g (Color_of_hexcode PALETTE_END)) - uint (rgb_g (Color_of_hexcode PALETTE_START))\<bar> maxit)
              (c_div \<bar>uint (rgb_b (Color_of_hexcode PALETTE_END)) - uint (rgb_b (Color_of_hexcode PALETTE_START))\<bar> maxit)
              (Color_of_hexcode PALETTE_START) 0 (map junk [0..<nat (maxit + 1)]))
           [nat maxit := Color_of_hexcode 0x0]"
  from assms(1) j have s: "in_set_color s = Color_of_hexcode IN_SET_COLOR" "palette s = ?p"
    by (auto simp: graphics_init_def create_palette_Some split: if_splits)
  show "in_set_color s = \<lparr> rgb_r = 5, rgb_g = 5, rgb_b = 5 \<rparr>"
    unfolding s by (simp add: Color_of_hexcode_def IN_SET_COLOR_def)
  show "palette s ! nat maxit = \<lparr> rgb_r = 0, rgb_g = 0, rgb_b = 0 \<rparr>"
    unfolding s using assms(2) by (simp add: palette_loop_length Color_of_hexcode_def)
  show "int (length (palette s)) = maxit + 1"
    unfolding s using assms(2) by (simp add: palette_loop_length)
qed

text \<open>
  Claim C6. In the raster of the builder, the pixel \<open>(x, y)\<close> of a \<open>width\<close> by
  \<open>height\<close> window is the colour of its own plane point: \<open>palette[n]\<close> when
  the evaluator returns \<open>Escaped n\<close> there, and the in-set colour handed to the
  builder when it returns \<open>Bounded\<close>, whatever the palette holds. The in-set
  colour that \<^verbatim>\<open>graphics_init\<close> stores differs from the last slot of the palette it
  builds.
\<close>

theorem render_pixel:
  assumes "0 \<le> x" "x < width" "0 \<le> y" "y < height"
  shows "render ev realLo realHi imagLo imagHi width height colors inSetColor
           ! (nat y * nat width + nat x) =
         (case ev (pixel_point realLo realHi imagLo imagHi width height x y) of
            Escaped n \<Rightarrow> colors ! n
          | Bounded \<Rightarrow> inSetColor) \<and>
     int (length (render ev realLo realHi imagLo imagHi width height colors inSetColor)) =
       width * height \<and>
     (\<forall>env maxit config s.
        graphics_init env maxit config = Inr s \<and> 0 < maxit \<longrightarrow>
        in_set_color s \<noteq> palette s ! nat maxit)"
proof -
  have xy: "nat y < nat height" "nat x < nat width" "int (nat x) = x" "int (nat y) = y"
    using assms by simp_all
  have px: "render ev realLo realHi imagLo imagHi width height colors inSetColor
           ! (nat y * nat width + nat x) =
      pixel_color ev colors inSetColor (pixel_point realLo realHi imagLo imagHi width height x y)"
  proof -
    have "concat (map (\<lambda>b. map (\<lambda>a.
         pixel_color ev colors inSetColor
           (pixel_point realLo realHi imagLo imagHi width height (int a) (int b)))
       [0..<nat width]) [0..<nat height]) ! (nat y * nat width + nat x) =
      pixel_color ev colors inSetColor
           (pixel_point realLo realHi imagLo imagHi width height (int (nat x)) (int (nat y)))"
      by (rule concat_rows_nth [OF xy(1,2)])
    then show ?thesis
      unfolding render_def xy(3,4) .
  qed
  have "length (render ev realLo realHi imagLo imagHi width height colors inSetColor) =
      nat height * nat width"
    unfolding render_def by (rule length_concat_rows)
  then have len: "int (length (render ev realLo realHi imagLo imagHi width height colors inSetColor)) =
       width * height"
    using assms by (simp add: nat_mult_distrib [symmetric] mult.commute)
  have init: "in_set_color s \<noteq> palette s ! nat maxit"
    if "graphics_init env maxit config = Inr s \<and> 0 < maxit" for env maxit config s
    using graphics_init_colors(1,2) [of env maxit config s] that by simp
  then have "\<forall>env maxit config s.
        graphics_init env maxit config = Inr s \<and> 0 < maxit \<longrightarrow>
        in_set_color s \<noteq> palette s ! nat maxit"
    by blast
  with px len show ?thesis
    by (simp add: pixel_color_def)
qed

theorem render_pixel_witness:
  "(0::int) \<le> 1 \<and> (1::int) < 2 \<and>
   render (evaluate exact_complex C_INFINITY 1) (- 1) 1 (- 1) 1 2 2
       [Color_of_hexcode PALETTE_START, Color_of_hexcode 0x0] (Color_of_hexcode IN_SET_COLOR) ! 3 =
     \<lparr> rgb_r = 5, rgb_g = 5, rgb_b = 5 \<rparr> \<and>
   graphics_init all_created 1 (example_config 2 2 2) =
     Inr ((example_state 2 2 2)\<lparr> changed := True \<rparr>) \<and>
   in_set_color ((example_state 2 2 2)\<lparr> changed := True \<rparr>) \<noteq>
     palette ((example_state 2 2 2)\<lparr> changed := True \<rparr>) ! 1"
proof -
  have h: "(0::int) \<le> 1" "(1::int) < 2" by simp_all
  note t = render_pixel [OF h h, of "evaluate exact_complex C_INFINITY 1" "- 1" 1 "- 1" 1
      "[Color_of_hexcode PALETTE_START, Color_of_hexcode 0x0]" "Color_of_hexcode IN_SET_COLOR"]
  have i: "graphics_init all_created 1 (example_config 2 2 2) =
     Inr ((example_state 2 2 2)\<lparr> changed := True \<rparr>)"
    by (rule example_state_reached)
  from t have px: "render (evaluate exact_complex C_INFINITY 1) (- 1) 1 (- 1) 1 2 2
       [Color_of_hexcode PALETTE_START, Color_of_hexcode 0x0] (Color_of_hexcode IN_SET_COLOR) ! 3 =
     \<lparr> rgb_r = 5, rgb_g = 5, rgb_b = 5 \<rparr>"
    by (simp add: evaluate_infinite Color_of_hexcode_def IN_SET_COLOR_def)
  from t have "graphics_init all_created 1 (example_config 2 2 2) =
        Inr ((example_state 2 2 2)\<lparr> changed := True \<rparr>) \<and> 0 < (1::int) \<longrightarrow>
      in_set_color ((example_state 2 2 2)\<lparr> changed := True \<rparr>) \<noteq>
        palette ((example_state 2 2 2)\<lparr> changed := True \<rparr>) ! nat 1"
    by blast
  with i have ne: "in_set_color ((example_state 2 2 2)\<lparr> changed := True \<rparr>) \<noteq>
     palette ((example_state 2 2 2)\<lparr> changed := True \<rparr>) ! nat 1"
    by simp
  from h px i ne show ?thesis by simp
qed

section \<open>Properties of the viewport transitions\<close>

lemma recenter_eq:
  "recenter s x y =
     s\<lparr> center_x := map_range (of_int x) 0 (of_int (window_w s)) (REAL_LO s) (REAL_HI s),
       center_y := map_range (of_int y) 0 (of_int (window_w s)) (IMAG_LO s) (IMAG_HI s) \<rparr>"
  by (simp add: recenter_def recenter_x_def recenter_y_def IMAG_LO_def IMAG_HI_def)

lemma recenter_ranges:
  "real_range (recenter s x y) = real_range s" "imag_range (recenter s x y) = imag_range s"
  by (simp_all add: recenter_eq)

text \<open>
  Claim C3, at a window of 800 by 600 pixels onto \<open>[-1, 1] \<times> [-1, 1]\<close>:
  \<^verbatim>\<open>recenter\<close> at the middle pixel \<open>(400, 300)\<close> maps \<open>y\<close> over the width of the
  window and moves the centre to \<open>(0, -1/4)\<close>, where the pixel-to-plane mapping of the
  builder, which maps \<open>y\<close> over the height, gives \<open>(0, 0)\<close>.
\<close>

theorem recenter_y_over_width:
  "center_x (recenter (example_state 800 600 2) 400 300) = 0 \<and>
   center_y (recenter (example_state 800 600 2) 400 300) = - 1 / 4 \<and>
   pixel_point (REAL_LO (example_state 800 600 2)) (REAL_HI (example_state 800 600 2))
     (IMAG_LO (example_state 800 600 2)) (IMAG_HI (example_state 800 600 2))
     (window_w (example_state 800 600 2)) (window_h (example_state 800 600 2)) 400 300 = (0, 0)"
  by (simp add: recenter_eq example_state_def pixel_point_def map_range_def
      REAL_LO_def REAL_HI_def IMAG_LO_def IMAG_HI_def)

section \<open>Properties of binary64 rounding\<close>

lemma round_even_err: "\<bar>of_int (round_even y) - y\<bar> \<le> 1 / 2"
proof -
  define f where "f = \<lfloor>y\<rfloor>"
  have f: "of_int f \<le> y" "y < of_int f + 1" unfolding f_def by linarith+
  consider "y - of_int f < 1 / 2" | "1 / 2 < y - of_int f" | "y - of_int f = 1 / 2"
    by linarith
  then show ?thesis
  proof cases
    case 1
    then have "round_even y = f" by (simp add: round_even_def f_def)
    with 1 f show ?thesis by simp
  next
    case 2
    then have "round_even y = f + 1" by (simp add: round_even_def f_def)
    with 2 f show ?thesis by simp
  next
    case 3
    then have "round_even y = f \<or> round_even y = f + 1"
      by (simp add: round_even_def f_def Let_def)
    with 3 f show ?thesis by auto
  qed
qed

lemma round_even_int: "round_even (of_int m) = m"
  by (simp add: round_even_def)

lemma nearest_err: "\<bar>nearest x - x\<bar> \<le> \<bar>x\<bar> / 2 ^ 53 + 1 / 2 ^ 1075"
proof (cases "x = 0")
  case True
  then show ?thesis by (simp add: nearest_def)
next
  case False
  define s :: real where "s = 2 powr of_int (binade x - 52)"
  have s0: "0 < s" by (simp add: s_def)
  have "nearest x - x = s * (of_int (round_even (x / s)) - x / s)"
    using False s0 by (simp add: nearest_def s_def algebra_simps)
  then have "\<bar>nearest x - x\<bar> = s * \<bar>of_int (round_even (x / s)) - x / s\<bar>"
    using s0 by (simp add: abs_mult)
  also have "\<dots> \<le> s * (1 / 2)"
    using s0 round_even_err [of "x / s"] by (intro mult_left_mono) simp_all
  finally have half: "\<bar>nearest x - x\<bar> \<le> s / 2" by simp
  show ?thesis
  proof (cases "- 1022 \<le> \<lfloor>log 2 \<bar>x\<bar>\<rfloor>")
    case True
    then have b: "binade x = \<lfloor>log 2 \<bar>x\<bar>\<rfloor>" by (simp add: binade_def)
    have "of_int (binade x) \<le> log 2 \<bar>x\<bar>" unfolding b by linarith
    then have "2 powr of_int (binade x) \<le> \<bar>x\<bar>"
      using False by (simp add: le_log_iff)
    moreover have "s = 2 powr of_int (binade x) / 2 ^ 52"
      unfolding s_def by (simp add: powr_diff)
    ultimately have "s / 2 \<le> \<bar>x\<bar> / 2 ^ 53"
      by (simp add: field_simps)
    with half show ?thesis by simp
  next
    case False
    then have b: "binade x = - 1022" by (simp add: binade_def)
    have "s = 1 / 2 ^ 1074"
      unfolding s_def b by (simp add: powr_minus_divide)
    then have "s / 2 = 1 / 2 ^ 1075" by simp
    with half have "\<bar>nearest x - x\<bar> \<le> 1 / 2 ^ 1075" by (simp only:)
    moreover have "0 \<le> \<bar>x\<bar> / 2 ^ 53" by simp
    ultimately show ?thesis by (rule add_increasing [OF _ _, rotated])
  qed
qed

lemma nearest_bound: "\<bar>nearest x\<bar> \<le> \<bar>x\<bar> + \<bar>x\<bar> / 2 ^ 53 + 1 / 2 ^ 1075"
  using nearest_err [of x] by linarith

lemma fl_Some:
  assumes "\<bar>x\<bar> \<le> 2 ^ 1023"
  shows "fl x = Some (nearest x)"
proof -
  have "\<bar>x\<bar> / 2 ^ 53 \<le> 2 ^ 1023 / 2 ^ 53"
    using assms by (intro divide_right_mono) simp_all
  then have "\<bar>x\<bar> + \<bar>x\<bar> / 2 ^ 53 + 1 / 2 ^ 1075 \<le> 2 ^ 1023 + 2 ^ 1023 / 2 ^ 53 + 1 / 2 ^ 1075"
    using assms by linarith
  also have "\<dots> < (2 ^ 1024 :: real)" by simp
  finally have "\<bar>nearest x\<bar> < 2 ^ 1024" using nearest_bound [of x] by linarith
  then show ?thesis by (simp only: fl_def if_True)
qed

lemma fl_SomeD: "fl x = Some r \<Longrightarrow> r = nearest x"
  by (simp add: fl_def split: if_splits)

lemma nearest_of_int:
  assumes "\<bar>n\<bar> < 2 ^ 53"
  shows "nearest (of_int n) = of_int n"
proof (cases "n = 0")
  case True
  then show ?thesis by (simp add: nearest_def)
next
  case False
  define x :: real where "x = of_int n"
  have x1: "1 \<le> \<bar>x\<bar>" using False unfolding x_def by (simp flip: of_int_abs)
  have x2: "\<bar>x\<bar> < 2 ^ 53" using assms unfolding x_def by (simp flip: of_int_abs)
  have "0 \<le> log 2 \<bar>x\<bar>" using x1 by simp
  moreover have "log 2 \<bar>x\<bar> < 53"
    using x1 x2 by (simp add: log_less_iff)
  ultimately have fl: "0 \<le> \<lfloor>log 2 \<bar>x\<bar>\<rfloor>" "\<lfloor>log 2 \<bar>x\<bar>\<rfloor> \<le> 52" by linarith+
  define k where "k = nat (52 - \<lfloor>log 2 \<bar>x\<bar>\<rfloor>)"
  have b: "binade x - 52 = - int k" using fl by (simp add: binade_def k_def)
  have s: "(2::real) powr of_int (binade x - 52) = 1 / 2 ^ k"
    unfolding b by (simp add: powr_minus_divide powr_realpow)
  have "x / (1 / 2 ^ k) = of_int (n * 2 ^ k)" by (simp add: x_def)
  then have "round_even (x / 2 powr of_int (binade x - 52)) = n * 2 ^ k"
    unfolding s by (simp only: round_even_int)
  then have "nearest x = of_int (n * 2 ^ k) * (1 / 2 ^ k)"
    using x1 unfolding nearest_def s by auto
  then show ?thesis by (simp add: x_def)
qed

lemma fl_of_int: "\<bar>n\<bar> < 2 ^ 53 \<Longrightarrow> fl (of_int n) = Some (of_int n)"
proof -
  assume a: "\<bar>n\<bar> < 2 ^ 53"
  have "\<bar>real_of_int n\<bar> < 2 ^ 53" using a by (simp flip: of_int_abs)
  then have "\<bar>real_of_int n\<bar> \<le> 2 ^ 1023" by simp
  from fl_Some [OF this] nearest_of_int [OF a] show ?thesis by simp
qed

lemma nearest_eval:
  assumes "j \<le> 1074" "2 ^ 52 \<le> \<bar>x\<bar> * 2 ^ j" "\<bar>x\<bar> * 2 ^ j < 2 ^ 53"
  shows "nearest x = of_int (round_even (x * 2 ^ j)) / 2 ^ j"
proof -
  have x0: "x \<noteq> 0" using assms(2) by auto
  have p: "(2::real) ^ j = 2 powr of_int (int j)" by (simp add: powr_realpow)
  have lo: "2 powr (52 - real j) \<le> \<bar>x\<bar>"
    using assms(2) by (simp add: powr_diff powr_realpow field_simps)
  have hi: "\<bar>x\<bar> < 2 powr (53 - real j)"
    using assms(3) by (simp add: powr_diff powr_realpow field_simps)
  have "52 - real j \<le> log 2 \<bar>x\<bar>" using lo x0 by (simp add: le_log_iff)
  moreover have "log 2 \<bar>x\<bar> < 53 - real j" using hi x0 by (simp add: log_less_iff)
  ultimately have "\<lfloor>log 2 \<bar>x\<bar>\<rfloor> = 52 - int j" by linarith
  then have b: "binade x - 52 = - int j" using assms(1) by (simp add: binade_def)
  have s: "(2::real) powr of_int (binade x - 52) = 1 / 2 ^ j"
    unfolding b by (simp add: powr_minus_divide powr_realpow)
  show ?thesis using x0 unfolding nearest_def s by simp
qed

lemma fl_zero: "fl 0 = Some 0"
  by (simp add: fl_def nearest_def)

lemma fl_eval:
  assumes "j \<le> 1074" "2 ^ 52 \<le> \<bar>x\<bar> * 2 ^ j" "\<bar>x\<bar> * 2 ^ j < 2 ^ 53"
    and "of_int (round_even (x * 2 ^ j)) / 2 ^ j = r"
  shows "fl x = Some r"
proof -
  have "\<bar>x\<bar> * 1 \<le> \<bar>x\<bar> * 2 ^ j" by (intro mult_left_mono) simp_all
  with assms(3) have "\<bar>x\<bar> \<le> 2 ^ 1023" by simp
  from fl_Some [OF this] nearest_eval [OF assms(1-3)] assms(4) show ?thesis by simp
qed

lemma fl_bind_Some:
  "(fl x \<bind> f = Some y) = (\<bar>nearest x\<bar> < 2 ^ 1024 \<and> f (nearest x) = Some y)"
  unfolding fl_def by (cases "\<bar>nearest x\<bar> < 2 ^ 1024") (simp_all only: if_True if_False bind.simps, simp_all)

lemma fl_eq_Some: "(fl x = Some y) = (\<bar>nearest x\<bar> < 2 ^ 1024 \<and> y = nearest x)"
  unfolding fl_def by (cases "\<bar>nearest x\<bar> < 2 ^ 1024") (simp_all only: if_True if_False, auto)

lemma fl_values:
  "fl 1 = Some 1" "fl (- 1) = Some (- 1)" "fl 2 = Some 2" "fl 3 = Some 3"
  "fl 50 = Some 50" "fl 100 = Some 100" "fl 150 = Some 150"
  "fl 300 = Some 300" "fl 400 = Some 400" "fl 600 = Some 600" "fl 800 = Some 800"
  using fl_of_int [of 1] fl_of_int [of "- 1"] fl_of_int [of 2] fl_of_int [of 3]
    fl_of_int [of 50] fl_of_int [of 100] fl_of_int [of 150]
    fl_of_int [of 300] fl_of_int [of 400] fl_of_int [of 600] fl_of_int [of 800]
  by simp_all

lemma fl_fractions:
  "fl (3 / 2) = Some (3 / 2)" "fl (- (3 / 2)) = Some (- (3 / 2))"
  "fl (- (1 / 2)) = Some (- (1 / 2))" "fl (3 / 4) = Some (3 / 4)" "fl (- (1 / 4)) = Some (- (1 / 4))"
  by (rule fl_eval [of 52], simp_all add: round_even_def)
     (rule fl_eval [of 52], simp_all add: round_even_def,
      rule fl_eval [of 53], simp_all add: round_even_def,
      rule fl_eval [of 53], simp_all add: round_even_def,
      rule fl_eval [of 54], simp_all add: round_even_def)

lemma fl_near_08:
  "fl (3 / 10) = Some (5404319552844595 / 18014398509481984)"
  "fl (- (14411518807585587 / 18014398509481984)) = Some (- (3602879701896397 / 4503599627370496))"
  "fl (- (10358279142952141 / 4503599627370496)) = Some (- (2589569785738035 / 1125899906842624))"
  "fl (3152519739159347 / 4503599627370496) = Some (3152519739159347 / 4503599627370496)"
  "fl (13510798882111487 / 4503599627370496) = Some 3"
  "fl (- (900719925474099 / 1125899906842624)) = Some (- (900719925474099 / 1125899906842624))"
  by (rule fl_eval [of 54], simp_all add: round_even_def)
     (rule fl_eval [of 53], simp_all add: round_even_def,
      rule fl_eval [of 51], simp_all add: round_even_def,
      rule fl_eval [of 53], simp_all add: round_even_def,
      rule fl_eval [of 51], simp_all add: round_even_def,
      rule fl_eval [of 53], simp_all add: round_even_def)

section \<open>Recentring on the middle pixel\<close>

lemma middle_error:
  fixes cx rr h lo hi d t q c S eta :: real
  assumes S: "S = \<bar>cx\<bar> + \<bar>rr\<bar>" and eta: "0 \<le> eta"
    and a1: "\<bar>h - rr / 2\<bar> \<le> \<bar>rr / 2\<bar> / 2 ^ 53 + eta"
    and a2: "\<bar>lo - (cx - h)\<bar> \<le> \<bar>cx - h\<bar> / 2 ^ 53 + eta"
    and a3: "\<bar>hi - (cx + h)\<bar> \<le> \<bar>cx + h\<bar> / 2 ^ 53 + eta"
    and a4: "\<bar>d - (hi - lo)\<bar> \<le> \<bar>hi - lo\<bar> / 2 ^ 53 + eta"
    and a5: "\<bar>t - d / 2\<bar> \<le> \<bar>d / 2\<bar> / 2 ^ 53 + eta"
    and a6: "\<bar>q - t\<bar> \<le> \<bar>t\<bar> / 2 ^ 53 + eta"
    and a7: "\<bar>c - (lo + q)\<bar> \<le> \<bar>lo + q\<bar> / 2 ^ 53 + eta"
  shows "\<bar>c - cx\<bar> \<le> 32 * S / 2 ^ 53 + 32 * eta"
    and "\<bar>rr / 2\<bar> \<le> S" "\<bar>cx - h\<bar> \<le> 2 * S + eta" "\<bar>cx + h\<bar> \<le> 2 * S + eta"
    and "\<bar>hi - lo\<bar> \<le> 6 * S + 6 * eta" "\<bar>d\<bar> \<le> 7 * S + 8 * eta"
    and "\<bar>t\<bar> \<le> 4 * S + 6 * eta" "\<bar>lo + q\<bar> \<le> 8 * S + 11 * eta"
proof -
  have P: "(2::real) ^ 53 = 9007199254740992" by simp
  note 1 = a1 [unfolded P] and 2 = a2 [unfolded P] and 3 = a3 [unfolded P] and 4 = a4 [unfolded P]
    and 5 = a5 [unfolded P] and 6 = a6 [unfolded P] and 7 = a7 [unfolded P]
  have S0: "0 \<le> S" "\<bar>cx\<bar> \<le> S" "\<bar>rr / 2\<bar> \<le> S / 2" unfolding S by simp_all
  show b1: "\<bar>rr / 2\<bar> \<le> S" using S0 by argo
  have bh: "\<bar>h\<bar> \<le> S + eta" using 1 S0 by argo
  show b2: "\<bar>cx - h\<bar> \<le> 2 * S + eta" using bh S0 by argo
  show b3: "\<bar>cx + h\<bar> \<le> 2 * S + eta" using bh S0 by argo
  have e2: "\<bar>lo - (cx - h)\<bar> \<le> 2 * S / 9007199254740992 + 2 * eta" using 2 b2 eta S0 by argo
  have e3: "\<bar>hi - (cx + h)\<bar> \<le> 2 * S / 9007199254740992 + 2 * eta" using 3 b3 eta S0 by argo
  have blo: "\<bar>lo\<bar> \<le> 3 * S + 3 * eta" using e2 b2 S0 eta by argo
  have bhi: "\<bar>hi\<bar> \<le> 3 * S + 3 * eta" using e3 b3 S0 eta by argo
  show b4: "\<bar>hi - lo\<bar> \<le> 6 * S + 6 * eta" using blo bhi by argo
  have e4: "\<bar>d - (hi - lo)\<bar> \<le> 6 * S / 9007199254740992 + 2 * eta" using 4 b4 eta S0 by argo
  show bd: "\<bar>d\<bar> \<le> 7 * S + 8 * eta" using e4 b4 S0 eta by argo
  have bd2: "\<bar>d / 2\<bar> \<le> 7 / 2 * S + 4 * eta" using bd by simp
  have e5: "\<bar>t - d / 2\<bar> \<le> 4 * S / 9007199254740992 + 2 * eta" using 5 bd2 eta S0 by argo
  show bt: "\<bar>t\<bar> \<le> 4 * S + 6 * eta" using e5 bd2 S0 eta by argo
  have e6: "\<bar>q - t\<bar> \<le> 4 * S / 9007199254740992 + 2 * eta" using 6 bt eta S0 by argo
  have bq: "\<bar>q\<bar> \<le> 5 * S + 8 * eta" using e6 bt S0 eta by argo
  show b7: "\<bar>lo + q\<bar> \<le> 8 * S + 11 * eta" using blo bq by argo
  have e7: "\<bar>c - (lo + q)\<bar> \<le> 8 * S / 9007199254740992 + 2 * eta" using 7 b7 eta S0 by argo
  have "c - cx = (c - (lo + q)) + (q - t) + (t - d / 2) + (d - (hi - lo)) / 2 +
      ((lo - (cx - h)) + (hi - (cx + h))) / 2"
    by (simp add: field_simps)
  then have "\<bar>c - cx\<bar> \<le> \<bar>c - (lo + q)\<bar> + \<bar>q - t\<bar> + \<bar>t - d / 2\<bar> + \<bar>d - (hi - lo)\<bar> / 2 +
      (\<bar>lo - (cx - h)\<bar> + \<bar>hi - (cx + h)\<bar>) / 2"
    by argo
  with e2 e3 e4 e5 e6 e7 S0 eta show "\<bar>c - cx\<bar> \<le> 32 * S / 2 ^ 53 + 32 * eta"
    unfolding P by argo
qed

lemma recenter_x_double_recentred:
  "recenter_x_double s x =
     do { c \<leftarrow> recentred (center_x s) (real_range s) (window_w s) x; Some (s\<lparr> center_x := c \<rparr>) }"
  by (simp add: recenter_x_double_def recentred_def REAL_LO_double_def REAL_HI_double_def)

lemma recenter_y_double_recentred:
  "recenter_y_double s y =
     do { c \<leftarrow> recentred (center_y s) (imag_range s) (window_w s) y; Some (s\<lparr> center_y := c \<rparr>) }"
  by (simp add: recenter_y_double_def recentred_def IMAG_LO_double_def IMAG_HI_double_def)

lemma middle_chain:
  fixes c r :: real and w :: int
  assumes w: "0 < w" "even w" "w < 2 ^ 31"
  defines "h \<equiv> nearest (r / 2)"
  defines "lo \<equiv> nearest (c - h)"
  defines "hi \<equiv> nearest (c + h)"
  defines "d \<equiv> nearest (hi - lo)"
  defines "p \<equiv> nearest (of_int (w div 2) * d)"
  defines "q \<equiv> nearest (p / of_int w)"
  defines "c' \<equiv> nearest (lo + q)"
  shows "within_rounding c' c r"
    and "\<bar>r / 2\<bar> \<le> \<bar>c\<bar> + \<bar>r\<bar>"
    and "\<bar>c - h\<bar> \<le> 2 * (\<bar>c\<bar> + \<bar>r\<bar>) + 1"
    and "\<bar>c + h\<bar> \<le> 2 * (\<bar>c\<bar> + \<bar>r\<bar>) + 1"
    and "\<bar>hi - lo\<bar> \<le> 6 * (\<bar>c\<bar> + \<bar>r\<bar>) + 6"
    and "\<bar>of_int (w div 2) * d\<bar> \<le> 2 ^ 30 * (7 * (\<bar>c\<bar> + \<bar>r\<bar>) + 8)"
    and "\<bar>p / of_int w\<bar> \<le> 4 * (\<bar>c\<bar> + \<bar>r\<bar>) + 6"
    and "\<bar>lo + q\<bar> \<le> 8 * (\<bar>c\<bar> + \<bar>r\<bar>) + 11"
proof -
  define eta :: real where "eta = 1 / 2 ^ 1075"
  define S where "S = \<bar>c\<bar> + \<bar>r\<bar>"
  have eta: "0 \<le> eta" "eta \<le> 1" by (simp_all add: eta_def)
  note err = nearest_err [folded eta_def]
  have wr: "(2::real) \<le> of_int w" "real_of_int (w div 2) = of_int w / 2"
    using w by (auto simp: real_of_int_div elim!: evenE)
  have a1: "\<bar>h - r / 2\<bar> \<le> \<bar>r / 2\<bar> / 2 ^ 53 + eta" unfolding h_def by (rule err)
  have a2: "\<bar>lo - (c - h)\<bar> \<le> \<bar>c - h\<bar> / 2 ^ 53 + eta" unfolding lo_def by (rule err)
  have a3: "\<bar>hi - (c + h)\<bar> \<le> \<bar>c + h\<bar> / 2 ^ 53 + eta" unfolding hi_def by (rule err)
  have a4: "\<bar>d - (hi - lo)\<bar> \<le> \<bar>hi - lo\<bar> / 2 ^ 53 + eta" unfolding d_def by (rule err)
  have "\<bar>p - of_int w / 2 * d\<bar> \<le> \<bar>of_int w / 2 * d\<bar> / 2 ^ 53 + eta"
    unfolding p_def wr(2) by (rule err)
  then have "\<bar>p - of_int w / 2 * d\<bar> / of_int w \<le> (\<bar>of_int w / 2 * d\<bar> / 2 ^ 53 + eta) / of_int w"
    using wr(1) by (intro divide_right_mono) simp_all
  moreover have "\<bar>p - of_int w / 2 * d\<bar> / of_int w = \<bar>p / of_int w - d / 2\<bar>"
    using wr(1) by (simp add: abs_if field_simps)
  moreover have "\<bar>of_int w / 2 * d\<bar> / 2 ^ 53 / of_int w = \<bar>d / 2\<bar> / 2 ^ 53"
    using wr(1) by (simp add: abs_mult)
  moreover have "eta / of_int w \<le> eta"
    using wr(1) eta(1) by (simp add: divide_le_eq mult_le_cancel_left1 mult.commute)
  ultimately have a5: "\<bar>p / of_int w - d / 2\<bar> \<le> \<bar>d / 2\<bar> / 2 ^ 53 + eta"
    by (simp add: add_divide_distrib)
  have a6: "\<bar>q - p / of_int w\<bar> \<le> \<bar>p / of_int w\<bar> / 2 ^ 53 + eta" unfolding q_def by (rule err)
  have a7: "\<bar>c' - (lo + q)\<bar> \<le> \<bar>lo + q\<bar> / 2 ^ 53 + eta" unfolding c'_def by (rule err)
  note m = middle_error [OF S_def eta(1) a1 a2 a3 a4 a5 a6 a7]
  have "32 * S / 2 ^ 53 + 32 * eta = S / 2 ^ 48 + 1 / 2 ^ 1070"
    by (simp add: eta_def)
  with m(1) show "within_rounding c' c r"
    by (simp add: within_rounding_def S_def)
  show "\<bar>r / 2\<bar> \<le> \<bar>c\<bar> + \<bar>r\<bar>" using m(2) by (simp add: S_def)
  show "\<bar>c - h\<bar> \<le> 2 * (\<bar>c\<bar> + \<bar>r\<bar>) + 1" using m(3) eta by (simp add: S_def)
  show "\<bar>c + h\<bar> \<le> 2 * (\<bar>c\<bar> + \<bar>r\<bar>) + 1" using m(4) eta by (simp add: S_def)
  show "\<bar>hi - lo\<bar> \<le> 6 * (\<bar>c\<bar> + \<bar>r\<bar>) + 6" using m(5) eta by (simp add: S_def)
  have "\<bar>d\<bar> \<le> 7 * S + 8" using m(6) eta by simp
  moreover have "\<bar>real_of_int (w div 2)\<bar> \<le> 2 ^ 30"
  proof -
    have "w div 2 < 2 ^ 30" "0 \<le> w div 2" using w by simp_all
    then have "\<bar>w div 2\<bar> \<le> 2 ^ 30" by simp
    then show ?thesis by (metis of_int_abs of_int_le_iff of_int_numeral of_int_power)
  qed
  ultimately have "\<bar>real_of_int (w div 2)\<bar> * \<bar>d\<bar> \<le> 2 ^ 30 * (7 * S + 8)"
    by (intro mult_mono) simp_all
  then show "\<bar>of_int (w div 2) * d\<bar> \<le> 2 ^ 30 * (7 * (\<bar>c\<bar> + \<bar>r\<bar>) + 8)"
    by (simp add: abs_mult S_def)
  show "\<bar>p / of_int w\<bar> \<le> 4 * (\<bar>c\<bar> + \<bar>r\<bar>) + 6" using m(7) eta by (simp add: S_def)
  show "\<bar>lo + q\<bar> \<le> 8 * (\<bar>c\<bar> + \<bar>r\<bar>) + 11" using m(8) eta by (simp add: S_def)
qed

lemma recentred_eq:
  assumes "0 < w" "w < 2 ^ 31"
  shows "recentred c r w (w div 2) =
     do { h \<leftarrow> fl (r / 2); lo \<leftarrow> fl (c - h); hi \<leftarrow> fl (c + h); d \<leftarrow> fl (hi - lo);
          p \<leftarrow> fl (of_int (w div 2) * d); q \<leftarrow> fl (p / of_int w); fl (lo + q) }"
proof -
  have i: "fl (of_int (w div 2)) = Some (of_int (w div 2))" "fl (of_int w) = Some (of_int w)"
    using assms by (simp_all add: fl_of_int)
  have w0: "w \<noteq> 0" using assms by simp
  show ?thesis
  proof (cases "fl (r / 2)")
    case None
    then show ?thesis by (simp add: recentred_def fl_div_def)
  next
    case (Some h)
    show ?thesis
    proof (cases "fl (c - h)")
      case None
      with Some show ?thesis by (simp add: recentred_def fl_div_def)
    next
      case lo: (Some lo)
      show ?thesis
      proof (cases "fl (c + h)")
        case None
        with Some lo show ?thesis by (simp add: recentred_def fl_div_def)
      next
        case hi: (Some hi)
        show ?thesis
        proof (cases "fl (hi - lo)")
          case None
          with Some lo hi show ?thesis
            by (simp add: recentred_def fl_div_def map_range_double_def i)
        next
          case d: (Some d)
          show ?thesis
          proof (cases "fl (of_int (w div 2) * d)")
            case None
            with Some lo hi d show ?thesis
              by (simp add: recentred_def fl_div_def map_range_double_def i)
          next
            case p: (Some p)
            with Some lo hi d show ?thesis
              by (simp add: recentred_def fl_div_def map_range_double_def i w0)
          qed
        qed
      qed
    qed
  qed
qed

lemma recentred_A:
  assumes w: "0 < w" "even w" "w < 2 ^ 31"
    and r: "recentred c r w (w div 2) = Some c'"
  shows "within_rounding c' c r"
proof -
  from r have "c' = nearest (nearest (c - nearest (r / 2)) +
      nearest (nearest (of_int (w div 2) * nearest (nearest (c + nearest (r / 2)) - nearest (c - nearest (r / 2)))) / of_int w))"
    unfolding recentred_eq [OF w(1,3)] by (simp only: fl_bind_Some fl_eq_Some)
  with middle_chain(1) [OF w, of c r] show ?thesis by simp
qed

lemma below_max:
  fixes x S k m :: real
  assumes "x \<le> k * S + m" "S \<le> 2 ^ 981" "0 \<le> k" "k * 2 ^ 981 + m \<le> 2 ^ 1023"
  shows "x \<le> 2 ^ 1023"
proof -
  have "k * S \<le> k * 2 ^ 981" using assms(2,3) by (rule mult_left_mono)
  with assms(1) have "x \<le> k * 2 ^ 981 + m" by simp
  then show ?thesis using assms(4) by (rule order_trans)
qed

lemma recentred_B:
  assumes w: "0 < w" "even w" "w < 2 ^ 31"
    and b: "\<bar>c\<bar> \<le> 2 ^ 980" "\<bar>r\<bar> \<le> 2 ^ 980"
  shows "\<exists>c'. recentred c r w (w div 2) = Some c'"
proof -
  define h where "h = nearest (r / 2)"
  define lo where "lo = nearest (c - h)"
  define hi where "hi = nearest (c + h)"
  define d where "d = nearest (hi - lo)"
  define p where "p = nearest (of_int (w div 2) * d)"
  define q where "q = nearest (p / of_int w)"
  define e where "e = nearest (lo + q)"
  note defs = h_def lo_def hi_def d_def p_def q_def e_def
  note m = middle_chain [OF w, of c r, folded defs]
  have "\<bar>c\<bar> + \<bar>r\<bar> \<le> 2 ^ 980 + 2 ^ 980" using b by (rule add_mono)
  then have S: "\<bar>c\<bar> + \<bar>r\<bar> \<le> 2 ^ 981" by simp
  have "\<bar>r / 2\<bar> \<le> 2 ^ 1023"
    by (rule below_max [OF _ S, of _ 1 0]) (use m(2) in simp_all)
  then have f1: "fl (r / 2) = Some h" unfolding h_def by (rule fl_Some)
  have "\<bar>c - h\<bar> \<le> 2 ^ 1023"
    by (rule below_max [OF _ S, of _ 2 1]) (use m(3) in simp_all)
  then have f2: "fl (c - h) = Some lo" unfolding lo_def by (rule fl_Some)
  have "\<bar>c + h\<bar> \<le> 2 ^ 1023"
    by (rule below_max [OF _ S, of _ 2 1]) (use m(4) in simp_all)
  then have f3: "fl (c + h) = Some hi" unfolding hi_def by (rule fl_Some)
  have "\<bar>hi - lo\<bar> \<le> 2 ^ 1023"
    by (rule below_max [OF _ S, of _ 6 6]) (use m(5) in simp_all)
  then have f4: "fl (hi - lo) = Some d" unfolding d_def by (rule fl_Some)
  have "\<bar>of_int (w div 2) * d\<bar> \<le> 2 ^ 30 * 7 * (\<bar>c\<bar> + \<bar>r\<bar>) + 2 ^ 30 * 8"
    using m(6) by (simp add: algebra_simps)
  then have "\<bar>of_int (w div 2) * d\<bar> \<le> 2 ^ 1023"
    by (rule below_max [OF _ S]) simp_all
  then have f5: "fl (of_int (w div 2) * d) = Some p" unfolding p_def by (rule fl_Some)
  have "\<bar>p / of_int w\<bar> \<le> 2 ^ 1023"
    by (rule below_max [OF _ S, of _ 4 6]) (use m(7) in \<open>simp_all add: p_def\<close>)
  then have f6: "fl (p / of_int w) = Some q" unfolding q_def by (rule fl_Some)
  have "\<bar>lo + q\<bar> \<le> 2 ^ 1023"
    by (rule below_max [OF _ S, of _ 8 11]) (use m(8) in \<open>simp_all add: p_def q_def\<close>)
  then have f7: "fl (lo + q) = Some e" unfolding e_def by (rule fl_Some)
  have "recentred c r w (w div 2) = Some e"
    unfolding recentred_eq [OF w(1,3)] by (simp only: f1 f2 f3 f4 f5 f6 f7 bind.simps)
  then show ?thesis by blast
qed

lemma recenter_x_double_middle:
  assumes w: "0 < window_w s" "even (window_w s)" "window_w s < 2 ^ 31"
  shows "recenter_x_double s (window_w s div 2) = Some s' \<Longrightarrow>
           within_rounding (center_x s') (center_x s) (real_range s) \<and>
           s' = s\<lparr> center_x := center_x s' \<rparr>"
    and "\<bar>center_x s\<bar> \<le> 2 ^ 980 \<Longrightarrow> \<bar>real_range s\<bar> \<le> 2 ^ 980 \<Longrightarrow>
           \<exists>s'. recenter_x_double s (window_w s div 2) = Some s'"
proof -
  {
    assume "recenter_x_double s (window_w s div 2) = Some s'"
    then obtain c where c: "recentred (center_x s) (real_range s) (window_w s) (window_w s div 2) = Some c"
      and s': "s' = s\<lparr> center_x := c \<rparr>"
      unfolding recenter_x_double_recentred by (auto simp: bind_eq_Some_conv)
    from recentred_A [OF w c] s'
    show "within_rounding (center_x s') (center_x s) (real_range s) \<and>
           s' = s\<lparr> center_x := center_x s' \<rparr>" by simp
  }
  {
    assume "\<bar>center_x s\<bar> \<le> 2 ^ 980" "\<bar>real_range s\<bar> \<le> 2 ^ 980"
    from recentred_B [OF w this] obtain c
      where "recentred (center_x s) (real_range s) (window_w s) (window_w s div 2) = Some c"
      by blast
    then show "\<exists>s'. recenter_x_double s (window_w s div 2) = Some s'"
      unfolding recenter_x_double_recentred by simp
  }
qed

lemma recenter_y_double_frame:
  "recenter_y_double s y = Some s' \<Longrightarrow> s' = s\<lparr> center_y := center_y s' \<rparr>"
  unfolding recenter_y_double_recentred by (auto simp: bind_eq_Some_conv)

lemma recenter_y_double_middle:
  assumes w: "0 < window_w s" "even (window_w s)" "window_w s < 2 ^ 31"
  shows "recenter_y_double s (window_w s div 2) = Some s' \<Longrightarrow>
           within_rounding (center_y s') (center_y s) (imag_range s) \<and>
           s' = s\<lparr> center_y := center_y s' \<rparr>"
    and "\<bar>center_y s\<bar> \<le> 2 ^ 980 \<Longrightarrow> \<bar>imag_range s\<bar> \<le> 2 ^ 980 \<Longrightarrow>
           \<exists>s'. recenter_y_double s (window_w s div 2) = Some s'"
proof -
  {
    assume "recenter_y_double s (window_w s div 2) = Some s'"
    then obtain c where c: "recentred (center_y s) (imag_range s) (window_w s) (window_w s div 2) = Some c"
      and s': "s' = s\<lparr> center_y := c \<rparr>"
      unfolding recenter_y_double_recentred by (auto simp: bind_eq_Some_conv)
    from recentred_A [OF w c] s'
    show "within_rounding (center_y s') (center_y s) (imag_range s) \<and>
           s' = s\<lparr> center_y := center_y s' \<rparr>" by simp
  }
  {
    assume "\<bar>center_y s\<bar> \<le> 2 ^ 980" "\<bar>imag_range s\<bar> \<le> 2 ^ 980"
    from recentred_B [OF w this] obtain c
      where "recentred (center_y s) (imag_range s) (window_w s) (window_w s div 2) = Some c"
      by blast
    then show "\<exists>s'. recenter_y_double s (window_w s div 2) = Some s'"
      unfolding recenter_y_double_recentred by simp
  }
qed

lemmas double_defs =
  recenter_double_def recenter_x_double_def recenter_y_double_def map_range_double_def
  REAL_LO_double_def REAL_HI_double_def IMAG_LO_double_def IMAG_HI_double_def fl_div_def

lemma left_key_from_half:
  "do { m \<leftarrow> fl_div 3 10; fl (- (1 / 2) - m) } = Some (center_x near_08)"
  by (simp add: fl_div_def fl_near_08 near_08_def)

lemma recenter_double_800_600:
  "recenter_double (example_state 800 600 2) 400 300 = Some (recenter (example_state 800 600 2) 400 300)"
  by (simp add: double_defs recenter_eq example_state_def map_range_def
      REAL_LO_def REAL_HI_def IMAG_LO_def IMAG_HI_def fl_values fl_fractions fl_zero)

text \<open>
  Claim C4 as stated fails, in two ways. In a window of 3 by 3 pixels onto
  \<open>[-3/2, 3/2]\<close> squared the middle pixel is \<open>(1, 1)\<close>, and recentring there moves
  the centre to \<open>(-1/2, -1/2)\<close>, in exact arithmetic and on doubles alike. In a window
  100 pixels wide onto an extent of 3 whose centre is the double nearest to \<open>-0.8\<close>,
  recentring on column 50 moves the centre to the double \<open>-0.7999999999999998\<close>:
  the operations round.
\<close>

theorem recenter_middle_counterexample:
  "center_x (recenter (example_state 3 3 3)
       (c_div (window_w (example_state 3 3 3)) 2) (c_div (window_h (example_state 3 3 3)) 2))
     \<noteq> center_x (example_state 3 3 3) \<and>
   recenter_double (example_state 3 3 3)
       (c_div (window_w (example_state 3 3 3)) 2) (c_div (window_h (example_state 3 3 3)) 2) =
     Some ((example_state 3 3 3)\<lparr> center_x := - 1 / 2, center_y := - 1 / 2 \<rparr>) \<and>
   recenter_x_double near_08 (c_div (window_w near_08) 2) =
     Some (near_08\<lparr> center_x := - 900719925474099 / 1125899906842624 \<rparr>) \<and>
   center_x near_08 = - 3602879701896397 / 4503599627370496 \<and>
   even (window_w near_08)"
proof -
  have a: "center_x (recenter (example_state 3 3 3)
       (c_div (window_w (example_state 3 3 3)) 2) (c_div (window_h (example_state 3 3 3)) 2))
     \<noteq> center_x (example_state 3 3 3)"
    by (simp add: recenter_eq example_state_def map_range_def c_div_def
        REAL_LO_def REAL_HI_def IMAG_LO_def IMAG_HI_def)
  have b: "recenter_double (example_state 3 3 3)
       (c_div (window_w (example_state 3 3 3)) 2) (c_div (window_h (example_state 3 3 3)) 2) =
     Some ((example_state 3 3 3)\<lparr> center_x := - 1 / 2, center_y := - 1 / 2 \<rparr>)"
    by (simp add: double_defs example_state_def c_div_def fl_values fl_fractions)
  have c: "recenter_x_double near_08 (c_div (window_w near_08) 2) =
     Some (near_08\<lparr> center_x := - 900719925474099 / 1125899906842624 \<rparr>)"
    by (simp add: double_defs near_08_def example_state_def c_div_def fl_values fl_fractions
        fl_near_08)
  have d: "center_x near_08 = - 3602879701896397 / 4503599627370496" "even (window_w near_08)"
    by (simp_all add: near_08_def example_state_def)
  from a b c d show ?thesis by simp
qed

text \<open>
  Claim C4, amended. For every viewport whose window width is positive and even (and a C
  \<^verbatim>\<open>int\<close>), \<^verbatim>\<open>recenter\<close> at column \<open>width / 2\<close>, whatever the row, leaves
  \<open>center.x\<close> unchanged up to rounding: whenever no operation overflows, the new
  \<open>center.x\<close> is within \<open>(|center.x| + realRange) / 2^48 + 2^-1070\<close> of the old one
  and nothing but the centre changes, and the operations of \<^verbatim>\<open>recenter_x\<close> do not
  overflow while \<open>|center.x|\<close> and \<open>realRange\<close> are at most \<open>2^980\<close>. When the
  window is as high as it is wide, \<^verbatim>\<open>recenter\<close> at \<open>(width / 2, height / 2)\<close>
  leaves \<open>center.y\<close> unchanged in the same sense, and both ranges as they are.
\<close>

theorem recenter_middle_even:
  assumes "0 < window_w s" and "even (window_w s)" and "window_w s < 2 ^ 31"
  shows
    "(\<forall>y s'. recenter_double s (c_div (window_w s) 2) y = Some s' \<longrightarrow>
        within_rounding (center_x s') (center_x s) (real_range s) \<and>
        s' = s\<lparr> center_x := center_x s', center_y := center_y s' \<rparr>) \<and>
     (\<forall>s'. recenter_x_double s (c_div (window_w s) 2) = Some s' \<longrightarrow>
        within_rounding (center_x s') (center_x s) (real_range s) \<and>
        s' = s\<lparr> center_x := center_x s' \<rparr>) \<and>
     (\<bar>center_x s\<bar> \<le> 2 ^ 980 \<and> \<bar>real_range s\<bar> \<le> 2 ^ 980 \<longrightarrow>
        (\<exists>s'. recenter_x_double s (c_div (window_w s) 2) = Some s')) \<and>
     (window_h s = window_w s \<longrightarrow>
        (\<forall>s'. recenter_double s (c_div (window_w s) 2) (c_div (window_h s) 2) = Some s' \<longrightarrow>
           within_rounding (center_x s') (center_x s) (real_range s) \<and>
           within_rounding (center_y s') (center_y s) (imag_range s) \<and>
           s' = s\<lparr> center_x := center_x s', center_y := center_y s' \<rparr>) \<and>
        (\<bar>center_x s\<bar> \<le> 2 ^ 980 \<and> \<bar>real_range s\<bar> \<le> 2 ^ 980 \<and>
         \<bar>center_y s\<bar> \<le> 2 ^ 980 \<and> \<bar>imag_range s\<bar> \<le> 2 ^ 980 \<longrightarrow>
           (\<exists>s'. recenter_double s (c_div (window_w s) 2) (c_div (window_h s) 2) = Some s')))"
proof -
  have half: "c_div (window_w s) 2 = window_w s div 2"
    using assms(1) by (simp add: c_div_nonneg)
  have x1: "within_rounding (center_x s') (center_x s) (real_range s) \<and>
        s' = s\<lparr> center_x := center_x s' \<rparr>"
    if "recenter_x_double s (window_w s div 2) = Some s'" for s'
    using recenter_x_double_middle(1) [OF assms that] .
  have x2: "\<exists>s'. recenter_x_double s (window_w s div 2) = Some s'"
    if "\<bar>center_x s\<bar> \<le> 2 ^ 980 \<and> \<bar>real_range s\<bar> \<le> 2 ^ 980"
    using recenter_x_double_middle(2) [OF assms] that by blast
  have x3: "within_rounding (center_x s') (center_x s) (real_range s) \<and>
        s' = s\<lparr> center_x := center_x s', center_y := center_y s' \<rparr>"
    if r: "recenter_double s (window_w s div 2) y = Some s'" for y s'
  proof -
    from r obtain s1 where s1: "recenter_x_double s (window_w s div 2) = Some s1"
      and s': "recenter_y_double s1 y = Some s'"
      unfolding recenter_double_def by (auto simp: bind_eq_Some_conv)
    from x1 [OF s1] have a: "within_rounding (center_x s1) (center_x s) (real_range s)"
      and e1: "s1 = s\<lparr> center_x := center_x s1 \<rparr>" by simp_all
    note e2 = recenter_y_double_frame [OF s']
    have "center_x s' = center_x s1" by (subst e2) simp
    with a e1 e2 show ?thesis by (metis GState.surjective GState.update_convs(6))
  qed
  have b1: "within_rounding (center_x s') (center_x s) (real_range s) \<and>
           within_rounding (center_y s') (center_y s) (imag_range s) \<and>
           s' = s\<lparr> center_x := center_x s', center_y := center_y s' \<rparr>"
    if r: "recenter_double s (window_w s div 2) (window_w s div 2) = Some s'" for s'
  proof -
    from r obtain s1 where s1: "recenter_x_double s (window_w s div 2) = Some s1"
      and s': "recenter_y_double s1 (window_w s div 2) = Some s'"
      unfolding recenter_double_def by (auto simp: bind_eq_Some_conv)
    from x1 [OF s1] have a: "within_rounding (center_x s1) (center_x s) (real_range s)"
      and e1: "s1 = s\<lparr> center_x := center_x s1 \<rparr>" by simp_all
    have f: "window_w s1 = window_w s" "center_y s1 = center_y s" "imag_range s1 = imag_range s"
      by (subst e1, simp)+
    have w1: "0 < window_w s1" "even (window_w s1)" "window_w s1 < 2 ^ 31"
      using assms unfolding f by simp_all
    from recenter_y_double_middle(1) [OF w1, of s'] s'
    have b: "within_rounding (center_y s') (center_y s) (imag_range s)"
      and e2: "s' = s1\<lparr> center_y := center_y s' \<rparr>"
      unfolding f by simp_all
    have "center_x s' = center_x s1" by (subst e2) simp
    with a b e1 e2 show ?thesis by (metis GState.surjective GState.update_convs(6))
  qed
  have b2: "\<exists>s'. recenter_double s (window_w s div 2) (window_w s div 2) = Some s'"
    if m: "\<bar>center_x s\<bar> \<le> 2 ^ 980 \<and> \<bar>real_range s\<bar> \<le> 2 ^ 980 \<and>
         \<bar>center_y s\<bar> \<le> 2 ^ 980 \<and> \<bar>imag_range s\<bar> \<le> 2 ^ 980"
  proof -
    from x2 m obtain s1 where s1: "recenter_x_double s (window_w s div 2) = Some s1" by blast
    from x1 [OF s1] have e1: "s1 = s\<lparr> center_x := center_x s1 \<rparr>" by simp
    have f: "window_w s1 = window_w s" "center_y s1 = center_y s" "imag_range s1 = imag_range s"
      by (subst e1, simp)+
    have w1: "0 < window_w s1" "even (window_w s1)" "window_w s1 < 2 ^ 31"
      using assms unfolding f by simp_all
    from recenter_y_double_middle(2) [OF w1] m
    obtain s' where "recenter_y_double s1 (window_w s div 2) = Some s'"
      unfolding f by blast
    with s1 show ?thesis by (simp add: recenter_double_def)
  qed
  show ?thesis
    unfolding half using x1 x2 x3 b1 b2 by (simp add: half)
qed

theorem recenter_middle_even_witness:
  "0 < window_w (example_state 800 800 2) \<and> even (window_w (example_state 800 800 2)) \<and>
   window_w (example_state 800 800 2) < 2 ^ 31 \<and>
   window_h (example_state 800 800 2) = window_w (example_state 800 800 2) \<and>
   \<bar>center_x (example_state 800 800 2)\<bar> \<le> 2 ^ 980 \<and>
   \<bar>real_range (example_state 800 800 2)\<bar> \<le> 2 ^ 980 \<and>
   \<bar>center_y (example_state 800 800 2)\<bar> \<le> 2 ^ 980 \<and>
   \<bar>imag_range (example_state 800 800 2)\<bar> \<le> 2 ^ 980 \<and>
   recenter_double (example_state 800 800 2) 400 400 = Some (example_state 800 800 2) \<and>
   within_rounding (center_x (example_state 800 800 2)) (center_x (example_state 800 800 2))
     (real_range (example_state 800 800 2)) \<and>
   within_rounding (center_y (example_state 800 800 2)) (center_y (example_state 800 800 2))
     (imag_range (example_state 800 800 2))"
proof -
  let ?s = "example_state 800 800 2"
  have h: "0 < window_w ?s" "even (window_w ?s)" "window_w ?s < 2 ^ 31"
    by (simp_all add: example_state_def)
  have e: "window_h ?s = window_w ?s" by (simp add: example_state_def)
  have m: "\<bar>center_x ?s\<bar> \<le> 2 ^ 980" "\<bar>real_range ?s\<bar> \<le> 2 ^ 980"
    "\<bar>center_y ?s\<bar> \<le> 2 ^ 980" "\<bar>imag_range ?s\<bar> \<le> 2 ^ 980"
    by (simp_all add: example_state_def)
  have c: "c_div (window_w ?s) 2 = 400" "c_div (window_h ?s) 2 = 400"
    by (simp_all add: c_div_def example_state_def)
  have r: "recenter_double ?s 400 400 = Some ?s"
    by (simp add: double_defs example_state_def fl_values fl_fractions fl_zero)
  from recenter_middle_even [OF h] e r
  have "within_rounding (center_x ?s) (center_x ?s) (real_range ?s) \<and>
     within_rounding (center_y ?s) (center_y ?s) (imag_range ?s)"
    unfolding c by blast
  with h e m r show ?thesis by simp
qed

section \<open>Properties of the event handler and of the render cycle\<close>

lemma handle_event_changed: "changed (snd (handle_event s e)) = True"
  by (simp add: handle_event_def split: prod.split)

lemma event_handler_changed: "evs \<noteq> [] \<Longrightarrow> changed (snd (event_handler s evs))"
proof (induction evs arbitrary: s)
  case Nil
  then show ?case by simp
next
  case (Cons e evs)
  obtain out1 s1 where h: "handle_event s e = (out1, s1)" by (cases "handle_event s e")
  have c1: "changed s1" using handle_event_changed [of s e] h by simp
  show ?case
  proof (cases evs)
    case Nil
    with h c1 show ?thesis by simp
  next
    case (Cons e' evs')
    with Cons.IH [of s1] have "changed (snd (event_handler s1 evs))" by simp
    with h show ?thesis by (auto split: prod.split)
  qed
qed

text \<open>
  Claim C5 as stated fails: in a state whose \<open>changed\<close> flag is down, one
  \<^verbatim>\<open>SDL_QUIT\<close> event raises the flag.
\<close>

theorem quit_marks_dirty_counterexample:
  "changed (example_state 800 600 2) = False \<and>
   changed (snd (handle_event (example_state 800 600 2) SDL_QUIT)) = True"
  by (simp add: handle_event_def example_state_def)

text \<open>
  Claim C5, amended. A quit event sets \<open>running\<close> to false, leaves the viewport as it
  is, and marks the state dirty: the handler sets \<open>changed\<close> after every event it
  polls, whatever the event.
\<close>

theorem every_event_marks_dirty:
  "running (snd (handle_event s SDL_QUIT)) = False \<and>
   changed (snd (handle_event s SDL_QUIT)) = True \<and>
   center_x (snd (handle_event s SDL_QUIT)) = center_x s \<and>
   center_y (snd (handle_event s SDL_QUIT)) = center_y s \<and>
   real_range (snd (handle_event s SDL_QUIT)) = real_range s \<and>
   imag_range (snd (handle_event s SDL_QUIT)) = imag_range s \<and>
   changed (snd (handle_event s e)) = True"
  by (simp add: handle_event_def split: prod.split)

lemma handle_event_quiet:
  "filter is_Pixels_called (fst (handle_event s e)) = [] \<and>
   filter is_Presented (fst (handle_event s e)) = []"
  by (cases e) (simp_all add: handle_event_def)

lemma event_handler_quiet:
  "filter is_Pixels_called (fst (event_handler s evs)) = [] \<and>
   filter is_Presented (fst (event_handler s evs)) = []"
proof (induction evs arbitrary: s)
  case Nil
  then show ?case by simp
next
  case (Cons e evs)
  obtain out1 s1 where h: "handle_event s e = (out1, s1)" by (cases "handle_event s e")
  obtain out2 s2 where r: "event_handler s1 evs = (out2, s2)" by (cases "event_handler s1 evs")
  from handle_event_quiet [of s e] h Cons.IH [of s1] r show ?case by simp
qed

lemma update_calls_once:
  "filter is_Pixels_called (fst (update b sdl s)) = [Pixels_called (pixels_call_of s)]"
  by (simp add: update_def split: option.split)

lemma update_presents:
  "snd (update b sdl s) = Inr u \<Longrightarrow> b (pixels_call_of s) = Some raster \<Longrightarrow>
   filter is_Presented (fst (update b sdl s)) = [Presented raster]"
  by (simp add: update_def split: option.splits if_splits)

lemma update_succeeds:
  "snd (update b sdl s) = Inr u \<Longrightarrow> \<exists>raster. b (pixels_call_of s) = Some raster"
  by (simp add: update_def split: option.splits if_splits)

lemma tick_out:
  "fst (tick b sdl s evs) =
     fst (event_handler s evs) @
     (if changed (snd (event_handler s evs)) then fst (update b sdl (snd (event_handler s evs)))
      else [])"
  by (simp add: tick_def split: prod.split sum.split)

lemma tick_result:
  "snd (tick b sdl s evs) =
     (if changed (snd (event_handler s evs)) then
        (case snd (update b sdl (snd (event_handler s evs))) of
           Inl e \<Rightarrow> Inl e
         | Inr u \<Rightarrow> Inr ((snd (event_handler s evs))\<lparr> changed := False \<rparr>))
      else Inr (snd (event_handler s evs)))"
  by (simp add: tick_def split: prod.split sum.split)

text \<open>
  Claim C9. One tick first handles every queued event, in order, and only then looks at
  \<open>changed\<close>: what it does to the outside is what the event handler does, followed by
  one \<^verbatim>\<open>update\<close> of the state the events leave if that state is dirty. So the builder
  is called once, on the bounds of that state, when the flag is up, and not at all
  otherwise; a tick with events, however many, calls it exactly once. When the tick
  returns, the state is the one the events leave with the flag cleared, and the one
  raster built has been presented.
\<close>

theorem tick_one_build:
  "fst (tick b sdl s evs) =
     fst (event_handler s evs) @
     (if changed (snd (event_handler s evs)) then fst (update b sdl (snd (event_handler s evs)))
      else []) \<and>
   filter is_Pixels_called (fst (tick b sdl s evs)) =
     (if changed (snd (event_handler s evs))
      then [Pixels_called (pixels_call_of (snd (event_handler s evs)))] else []) \<and>
   (evs \<noteq> [] \<longrightarrow>
      filter is_Pixels_called (fst (tick b sdl s evs)) =
        [Pixels_called (pixels_call_of (snd (event_handler s evs)))]) \<and>
   (\<forall>s'. snd (tick b sdl s evs) = Inr s' \<longrightarrow>
      s' = (snd (event_handler s evs))\<lparr> changed := False \<rparr> \<and>
      (changed (snd (event_handler s evs)) \<longrightarrow>
         (\<exists>raster. b (pixels_call_of (snd (event_handler s evs))) = Some raster \<and>
            filter is_Presented (fst (tick b sdl s evs)) = [Presented raster])) \<and>
      (\<not> changed (snd (event_handler s evs)) \<longrightarrow>
         filter is_Presented (fst (tick b sdl s evs)) = []))"
proof -
  let ?s1 = "snd (event_handler s evs)"
  note q = event_handler_quiet [of s evs]
  have calls: "filter is_Pixels_called (fst (tick b sdl s evs)) =
     (if changed ?s1 then [Pixels_called (pixels_call_of ?s1)] else [])"
    unfolding tick_out using q by (simp add: update_calls_once)
  have some: "evs \<noteq> [] \<longrightarrow>
      filter is_Pixels_called (fst (tick b sdl s evs)) = [Pixels_called (pixels_call_of ?s1)]"
    unfolding calls using event_handler_changed [of evs s] by simp
  have ret: "s' = ?s1\<lparr> changed := False \<rparr> \<and>
      (changed ?s1 \<longrightarrow>
         (\<exists>raster. b (pixels_call_of ?s1) = Some raster \<and>
            filter is_Presented (fst (tick b sdl s evs)) = [Presented raster])) \<and>
      (\<not> changed ?s1 \<longrightarrow> filter is_Presented (fst (tick b sdl s evs)) = [])"
    if r: "snd (tick b sdl s evs) = Inr s'" for s'
  proof (cases "changed ?s1")
    case False
    with r q show ?thesis
      unfolding tick_result tick_out by simp
  next
    case True
    with r obtain u where u: "snd (update b sdl ?s1) = Inr u"
      and s': "s' = ?s1\<lparr> changed := False \<rparr>"
      unfolding tick_result by (auto split: sum.splits)
    from update_succeeds [OF u] obtain raster where b: "b (pixels_call_of ?s1) = Some raster"
      by blast
    have "filter is_Presented (fst (tick b sdl s evs)) = [Presented raster]"
      unfolding tick_out using True q update_presents [OF u b] by simp
    with True s' b show ?thesis by simp
  qed
  from tick_out [of b sdl s evs] calls some ret show ?thesis
    by blast
qed

lemma three_pans:
  "event_handler (example_state 2 2 2)
     [SDL_KEYDOWN SDLK_LEFT, SDL_KEYDOWN SDLK_h, SDL_KEYDOWN SDLK_UP] =
   ([], (example_state 2 2 2)\<lparr> center_x := - 2 / 5, center_y := - 1 / 5, changed := True \<rparr>)"
  by (simp add: handle_event_def example_state_def MOVE_RATIO_def)

theorem tick_one_build_witness:
  "[SDL_KEYDOWN SDLK_LEFT, SDL_KEYDOWN SDLK_h, SDL_KEYDOWN SDLK_UP] \<noteq> [] \<and>
   filter is_Pixels_called
     (fst (tick (render_call (evaluate exact_complex C_INFINITY 1) (Color_of_hexcode IN_SET_COLOR))
        all_ok (example_state 2 2 2)
        [SDL_KEYDOWN SDLK_LEFT, SDL_KEYDOWN SDLK_h, SDL_KEYDOWN SDLK_UP])) =
     [Pixels_called
        \<lparr> arg_real_lo = - 7 / 5, arg_real_hi = 3 / 5, arg_imag_lo = - 6 / 5, arg_imag_hi = 4 / 5,
          arg_window_w = 2, arg_window_h = 2,
          arg_palette = [Color_of_hexcode PALETTE_START, Color_of_hexcode 0x0] \<rparr>] \<and>
   snd (tick (render_call (evaluate exact_complex C_INFINITY 1) (Color_of_hexcode IN_SET_COLOR))
        all_ok (example_state 2 2 2)
        [SDL_KEYDOWN SDLK_LEFT, SDL_KEYDOWN SDLK_h, SDL_KEYDOWN SDLK_UP]) =
     Inr ((example_state 2 2 2)\<lparr> center_x := - 2 / 5, center_y := - 1 / 5, changed := False \<rparr>)"
proof -
  let ?b = "render_call (evaluate exact_complex C_INFINITY 1) (Color_of_hexcode IN_SET_COLOR)"
  let ?evs = "[SDL_KEYDOWN SDLK_LEFT, SDL_KEYDOWN SDLK_h, SDL_KEYDOWN SDLK_UP]"
  let ?s1 = "(example_state 2 2 2)\<lparr> center_x := - 2 / 5, center_y := - 1 / 5, changed := True \<rparr>"
  have ne: "?evs \<noteq> []" by simp
  have r: "snd (tick ?b all_ok (example_state 2 2 2) ?evs) = Inr (?s1\<lparr> changed := False \<rparr>)"
    unfolding tick_result three_pans
    by (simp add: update_def render_call_def all_ok_def)
  have c: "pixels_call_of ?s1 =
        \<lparr> arg_real_lo = - 7 / 5, arg_real_hi = 3 / 5, arg_imag_lo = - 6 / 5, arg_imag_hi = 4 / 5,
          arg_window_w = 2, arg_window_h = 2,
          arg_palette = [Color_of_hexcode PALETTE_START, Color_of_hexcode 0x0] \<rparr>"
    by (simp add: pixels_call_of_def example_state_def REAL_LO_def REAL_HI_def IMAG_LO_def
        IMAG_HI_def)
  from tick_one_build [of ?b all_ok "example_state 2 2 2" ?evs] ne
  have "filter is_Pixels_called (fst (tick ?b all_ok (example_state 2 2 2) ?evs)) =
      [Pixels_called (pixels_call_of (snd (event_handler (example_state 2 2 2) ?evs)))]"
    by blast
  then have "filter is_Pixels_called (fst (tick ?b all_ok (example_state 2 2 2) ?evs)) =
      [Pixels_called (pixels_call_of ?s1)]"
    unfolding three_pans by simp
  with ne r c show ?thesis by simp
qed

section \<open>Zoom in exact arithmetic\<close>

lemma zoom_roundtrip_exact:
  "ratio \<noteq> 0 \<Longrightarrow>
   real_range (zoom_out (zoom_in s ratio) ratio) = real_range s \<and>
   imag_range (zoom_out (zoom_in s ratio) ratio) = imag_range s \<and>
   center_x (zoom_out (zoom_in s ratio) ratio) = center_x s \<and>
   center_y (zoom_out (zoom_in s ratio) ratio) = center_y s"
  by (simp add: zoom_in_def zoom_out_def)

end
